theory Spec2Isabelle
  imports Complex_Main "HOL-Library.AList"
begin

section \<open>Data model of the hybrid runner\<close>

text \<open>
  The hybrid CI runner keeps its learned selectors in a JavaScript \<open>Map\<close> from solution
  id to solution object.  A \<open>Map\<close> iterates in insertion order, \<open>set\<close> on an existing key
  keeps the key's position and \<open>delete\<close> removes it, so the model is an association list
  with \<open>map_of\<close> for \<open>get\<close>, \<open>AList.update\<close> for \<open>set\<close> and \<open>AList.delete\<close> for
  \<open>delete\<close>.

  JavaScript numbers are IEEE-754 doubles.  The confidence of a solution is modelled as a
  real number: \<open>Math.min\<close>, \<open>Math.max\<close> and the comparisons are exact on doubles, only
  the sums \<open>c + 0.02\<close> and \<open>c - 0.1\<close> are idealised (no rounding).  Counters are
  natural numbers, time stamps (\<open>new Date().toISOString()\<close>) are strings read from a clock
  that the caller passes in.
\<close>

type_synonym 'v js_map = "(string \<times> 'v) list"

record pageContext =
  page_url :: string
  pageType :: string

record solution =
  sol_id :: string
  sol_flowPath :: string
  stepAction :: string
  originalSelector :: string
  learnedSelector :: string
  confidence :: real
  successCount :: nat
  failureCount :: nat
  pageContext :: pageContext
  learnedAt :: string
  lastUsed :: string

record pattern =
  pattern_id :: string
  pattern_body :: string

record knowledge_base =
  solutions :: "solution js_map"
  patterns :: "pattern js_map"
  basePath :: string

text \<open>
  A flow step as the runner reads it: \<open>action\<close> is a plain string, every other field may
  be absent (\<open>undefined\<close>).
\<close>

record step =
  step_action :: string
  step_selector :: "string option"
  step_target :: "string option"
  step_value :: "string option"
  step_url :: "string option"
  step_description :: "string option"
  step_filename :: "string option"

record executionContext =
  ctx_flowPath :: string
  ctx_url :: string
  ctx_pageType :: string

text \<open>
  \<open>a || b\<close> on an optional string: an absent or empty string is falsy.
\<close>

definition or_else :: "string option \<Rightarrow> string \<Rightarrow> string" where
  "or_else a b = (case a of None \<Rightarrow> b | Some s \<Rightarrow> if s = [] then b else s)"

section \<open>String helpers\<close>

definition startsWith :: "string \<Rightarrow> string \<Rightarrow> bool" where
  "startsWith s p \<longleftrightarrow> take (length p) s = p"

fun str_includes :: "string \<Rightarrow> string \<Rightarrow> bool" where
  "str_includes [] sub = (sub = [])"
| "str_includes (c # cs) sub = (startsWith (c # cs) sub \<or> str_includes cs sub)"

fun indexOf :: "string \<Rightarrow> string \<Rightarrow> nat option" where
  "indexOf [] sub = (if sub = [] then Some 0 else None)"
| "indexOf (c # cs) sub =
     (if startsWith (c # cs) sub then Some 0 else map_option Suc (indexOf cs sub))"

text \<open>The character class \<open>\w\<close> of a JavaScript regular expression: \<open>[A-Za-z0-9_]\<close>.\<close>

definition is_word_char :: "char \<Rightarrow> bool" where
  "is_word_char c \<longleftrightarrow>
     (let n = (of_char c :: nat)
      in (48 \<le> n \<and> n \<le> 57) \<or> (65 \<le> n \<and> n \<le> 90) \<or> n = 95 \<or> (97 \<le> n \<and> n \<le> 122))"

definition is_quote :: "char \<Rightarrow> bool" where
  "is_quote c \<longleftrightarrow> c = CHR 0x27 \<or> c = CHR 0x22"

text \<open>
  \<open>String.prototype.replace\<close> with a regular expression.  A matcher tries the expression
  at the head of the input and returns the captured group and the input left after the
  match.  With the \<open>g\<close> flag every match is replaced, scanning left to right and resuming
  after each match; without it only the leftmost match is replaced.  None of the
  expressions of the runner matches the empty string, so a match always consumes input;
  the guard on the lengths records that.
\<close>

fun replace_all :: "(string \<Rightarrow> ('g \<times> string) option) \<Rightarrow> ('g \<Rightarrow> string) \<Rightarrow> string \<Rightarrow> string" where
  "replace_all m f [] = []"
| "replace_all m f (c # cs) =
     (case m (c # cs) of
        None \<Rightarrow> c # replace_all m f cs
      | Some (g, rest) \<Rightarrow>
          if length rest \<le> length cs then f g @ replace_all m f rest
          else c # replace_all m f cs)"

fun replace_first :: "(string \<Rightarrow> ('g \<times> string) option) \<Rightarrow> ('g \<Rightarrow> string) \<Rightarrow> string \<Rightarrow> string" where
  "replace_first m f [] = []"
| "replace_first m f (c # cs) =
     (case m (c # cs) of
        None \<Rightarrow> c # replace_first m f cs
      | Some (g, rest) \<Rightarrow> f g @ rest)"

fun first_match :: "(string \<Rightarrow> ('g \<times> string) option) \<Rightarrow> string \<Rightarrow> 'g option" where
  "first_match m [] = None"
| "first_match m (c # cs) =
     (case m (c # cs) of
        None \<Rightarrow> first_match m cs
      | Some (g, rest) \<Rightarrow> Some g)"

definition match_literal :: "string \<Rightarrow> string \<Rightarrow> (unit \<times> string) option" where
  "match_literal lit s = (if startsWith s lit then Some ((), drop (length lit) s) else None)"

section \<open>Plain objects\<close>

text \<open>
  The parameter objects of both programs are plain JavaScript objects whose own
  properties hold strings (a property that is \<open>undefined\<close> is an absent key).  A read
  \<open>obj[key]\<close> and the test \<open>key in obj\<close> also see what every plain object inherits from
  \<open>Object.prototype\<close>: the names below, each bound to a function, and \<open>__proto__\<close>, bound
  to the prototype itself.  An inherited member is truthy, and where a string is expected
  it is printed as Node prints it.
\<close>

datatype js_value = Str string | Inherited string

definition object_prototype_keys :: "string list" where
  "object_prototype_keys =
     [''constructor'', ''__defineGetter__'', ''__defineSetter__'', ''hasOwnProperty'',
      ''__lookupGetter__'', ''__lookupSetter__'', ''isPrototypeOf'',
      ''propertyIsEnumerable'', ''toString'', ''valueOf'', ''__proto__'',
      ''toLocaleString'']"

definition js_get :: "(string \<rightharpoonup> string) \<Rightarrow> string \<Rightarrow> js_value option" where
  "js_get obj key =
     (case obj key of
        Some v \<Rightarrow> Some (Str v)
      | None \<Rightarrow> if key \<in> set object_prototype_keys then Some (Inherited key) else None)"

definition js_in :: "string \<Rightarrow> (string \<rightharpoonup> string) \<Rightarrow> bool" where
  "js_in key obj \<longleftrightarrow> js_get obj key \<noteq> None"

fun truthy :: "js_value \<Rightarrow> bool" where
  "truthy (Str v) = (v \<noteq> [])"
| "truthy (Inherited name) = True"

fun to_text :: "js_value \<Rightarrow> string" where
  "to_text (Str v) = v"
| "to_text (Inherited name) =
     (if name = ''__proto__'' then ''[object Object]''
      else ''function '' @ (if name = ''constructor'' then ''Object'' else name)
             @ ''() { [native code] }'')"

section \<open>Parameter substitution\<close>

text \<open>
  \<open>/\{(\w+)\}/\<close>: an opening brace, a longest non-empty run of word characters, a closing
  brace.  The run is greedy, and since a closing brace is no word character a shorter run
  cannot match either.
\<close>

definition match_braced :: "string \<Rightarrow> (string \<times> string) option" where
  "match_braced s =
     (case s of
        [] \<Rightarrow> None
      | c # r \<Rightarrow>
          if c = CHR ''{'' then
            (let key = takeWhile is_word_char r;
                 r' = dropWhile is_word_char r
             in case r' of
                  [] \<Rightarrow> None
                | d # rest \<Rightarrow> if key \<noteq> [] \<and> d = CHR ''}'' then Some (key, rest) else None)
          else None)"

text \<open>\<open>/\${(\w+)}/\<close>: the same behind a dollar sign.\<close>

definition match_dollar :: "string \<Rightarrow> (string \<times> string) option" where
  "match_dollar s =
     (case s of
        [] \<Rightarrow> None
      | c # r \<Rightarrow> if c = CHR ''$'' then match_braced r else None)"

definition braced :: "string \<Rightarrow> string" where
  "braced key = ''{'' @ key @ ''}''"

definition dollar_braced :: "string \<Rightarrow> string" where
  "dollar_braced key = ''${'' @ key @ ''}''"

text \<open>
  The callbacks of the two programs: \<open>params[key] || match\<close> keeps the token when the
  value is falsy, \<open>params[key] !== undefined ? params[key] : match\<close> keeps it only when
  there is no value.  \<open>replace\<close> turns what a callback returns into a string.
\<close>

definition value_or_match :: "(string \<rightharpoonup> string) \<Rightarrow> string \<Rightarrow> string \<Rightarrow> string" where
  "value_or_match params key match =
     (case js_get params key of
        None \<Rightarrow> match
      | Some v \<Rightarrow> if truthy v then to_text v else match)"

definition defined_or_match :: "(string \<rightharpoonup> string) \<Rightarrow> string \<Rightarrow> string \<Rightarrow> string" where
  "defined_or_match params key match =
     (case js_get params key of
        None \<Rightarrow> match
      | Some v \<Rightarrow> to_text v)"

text \<open>
  \<open>replaceParams\<close> of the hybrid and the standalone runner: the pass over \<open>${key}\<close>, then
  the pass over \<open>{key}\<close> on its result.
\<close>

definition dollar_pass :: "(string \<rightharpoonup> string) \<Rightarrow> string \<Rightarrow> string" where
  "dollar_pass params str =
     replace_all match_dollar (\<lambda>key. value_or_match params key (dollar_braced key)) str"

definition brace_pass :: "(string \<rightharpoonup> string) \<Rightarrow> string \<Rightarrow> string" where
  "brace_pass params str =
     replace_all match_braced (\<lambda>key. value_or_match params key (braced key)) str"

definition replaceParams :: "string \<Rightarrow> (string \<rightharpoonup> string) \<Rightarrow> string" where
  "replaceParams str params =
     (if str = [] then str
      else
        (let str1 = dollar_pass params str
         in brace_pass params str1))"

text \<open>
  \<open>substituteParams\<close> of the \<open>execute_flow\<close> tool: one pass over \<open>{key}\<close> tokens, and the
  value is used whenever it is not \<open>undefined\<close>.
\<close>

definition substituteParams :: "string \<Rightarrow> (string \<rightharpoonup> string) \<Rightarrow> string" where
  "substituteParams str params =
     replace_all match_braced (\<lambda>key. defined_or_match params key (braced key)) str"

section \<open>Selector normalisation\<close>

text \<open>
  \<open>/:contains\(['"]([^'"]+)['"]\)/\<close>: the literal \<open>:contains(\<close>, a quote of either kind, a
  longest non-empty run of characters that are no quotes, a quote of either kind and a
  closing parenthesis.
\<close>

definition match_contains :: "string \<Rightarrow> (string \<times> string) option" where
  "match_contains s =
     (if startsWith s '':contains('' then
        (case drop 10 s of
           [] \<Rightarrow> None
         | q # r \<Rightarrow>
             if is_quote q then
               (let text = takeWhile (\<lambda>c. \<not> is_quote c) r;
                    r' = dropWhile (\<lambda>c. \<not> is_quote c) r
                in case r' of
                     q' # p # rest \<Rightarrow>
                       if text \<noteq> [] \<and> p = CHR '')'' then Some (text, rest) else None
                   | _ \<Rightarrow> None)
             else None)
      else None)"

definition has_text :: "string \<Rightarrow> string" where
  \<open>has_text text = '':has-text("'' @ text @ ''")''\<close>

text \<open>\<open>convertSelector\<close> of the hybrid and the standalone runner.\<close>

definition convertSelector :: "string \<Rightarrow> string" where
  "convertSelector selector =
     (if selector = [] then selector
      else
        (let selector1 = replace_all match_contains has_text selector
         in if startsWith selector1 '':contains(''
            then replace_first match_contains (\<lambda>text. ''text='' @ text) selector1
            else selector1))"

text \<open>\<open>convertSelector\<close> of the \<open>execute_flow\<close> tool.\<close>

definition convertSelector_tool :: "string \<Rightarrow> string" where
  "convertSelector_tool selector =
     (let first_child = replace_all (match_literal '':first-child'') (\<lambda>_. '':nth-child(1)'') selector
      in if str_includes selector '':contains('' then
           (case first_match match_contains selector of
              Some text \<Rightarrow>
                (let baseSelector =
                       (case indexOf selector '':contains'' of
                          None \<Rightarrow> []
                        | Some i \<Rightarrow> take i selector)
                 in baseSelector @ has_text text)
            | None \<Rightarrow> first_child)
         else first_child)"

section \<open>Knowledge base functions\<close>

text \<open>
  \<open>generateKey\<close>: the action, a dash, and the first eight hex digits of the MD5 digest of
  the step's original selector.  The digest comes from Node's \<open>crypto\<close> module and is a
  parameter of the model.
\<close>

definition generateKey :: "(string \<Rightarrow> string) \<Rightarrow> step \<Rightarrow> string" where
  "generateKey md5hex step =
     (let selector = or_else (step_selector step) (or_else (step_target step) [])
      in step_action step @ ''-'' @ take 8 (md5hex selector))"

definition similar_solution :: "step \<Rightarrow> executionContext \<Rightarrow> solution \<Rightarrow> bool" where
  "similar_solution step context s \<longleftrightarrow>
     stepAction s = step_action step \<and>
     pageType (pageContext s) = ctx_pageType context \<and>
     confidence s > 0.75"

definition findLearnedSolution ::
  "(string \<Rightarrow> string) \<Rightarrow> step \<Rightarrow> executionContext \<Rightarrow> knowledge_base \<Rightarrow> solution option" where
  "findLearnedSolution md5hex step context kb =
     (let key = generateKey md5hex step;
          exact = map_of (solutions kb) key;
          scan = List.find (similar_solution step context) (map snd (solutions kb))
      in case exact of
           None \<Rightarrow> scan
         | Some e \<Rightarrow> if confidence e > 0.8 then Some e else scan)"

definition recordSolution ::
  "(string \<Rightarrow> string) \<Rightarrow> string \<Rightarrow> step \<Rightarrow> string \<Rightarrow> executionContext \<Rightarrow> knowledge_base
     \<Rightarrow> knowledge_base" where
  "recordSolution md5hex now step learned context kb =
     (let s = \<lparr> sol_id = generateKey md5hex step,
                 sol_flowPath = ctx_flowPath context,
                 stepAction = step_action step,
                 originalSelector = or_else (step_selector step) (or_else (step_target step) []),
                 learnedSelector = learned,
                 confidence = 0.7,
                 successCount = 1,
                 failureCount = 0,
                 pageContext = \<lparr> page_url = ctx_url context, pageType = ctx_pageType context \<rparr>,
                 learnedAt = now,
                 lastUsed = now \<rparr>
      in kb\<lparr> solutions := AList.update (sol_id s) s (solutions kb) \<rparr>)"

definition recordSuccess :: "string \<Rightarrow> string \<Rightarrow> knowledge_base \<Rightarrow> knowledge_base" where
  "recordSuccess now solutionId kb =
     (case map_of (solutions kb) solutionId of
        None \<Rightarrow> kb
      | Some s \<Rightarrow>
          kb\<lparr> solutions :=
                 AList.update solutionId
                   (s\<lparr> successCount := successCount s + 1,
                       lastUsed := now,
                       confidence := min 0.99 (confidence s + 0.02) \<rparr>)
                   (solutions kb) \<rparr>)"

definition recordFailure :: "string \<Rightarrow> knowledge_base \<Rightarrow> knowledge_base" where
  "recordFailure solutionId kb =
     (case map_of (solutions kb) solutionId of
        None \<Rightarrow> kb
      | Some s \<Rightarrow>
          (let s' = s\<lparr> failureCount := failureCount s + 1,
                         confidence := max 0.3 (confidence s - 0.1) \<rparr>
           in if confidence s' < 0.4
              then kb\<lparr> solutions := AList.delete solutionId (solutions kb) \<rparr>
              else kb\<lparr> solutions := AList.update solutionId s' (solutions kb) \<rparr>))"

definition classifyPage :: "string \<Rightarrow> string" where
  "classifyPage u =
     (if str_includes u ''/login'' then ''authentication''
      else if str_includes u ''/dashboard'' then ''dashboard''
      else if str_includes u ''/call'' then ''call-management''
      else if str_includes u ''/appointment'' then ''appointments''
      else ''general'')"

subsection \<open>Persistence\<close>

text \<open>
  The knowledge base lives in two JSON files under its base path.  A file is either
  absent, or holds the object the runner writes (\<open>version\<close>, \<open>lastUpdated\<close> and the
  array), or holds anything on which \<open>JSON.parse\<close> or the \<open>.map\<close> over the array throws;
  the loader catches that and keeps the empty map.  A solutions file holding a patterns
  object (or the converse) has no array of the expected name and is unreadable in that
  sense too.
\<close>

record solutions_file =
  sf_version :: string
  sf_lastUpdated :: string
  sf_solutions :: "solution list"

record patterns_file =
  pf_version :: string
  pf_lastUpdated :: string
  pf_patterns :: "pattern list"

datatype file_content =
    SolutionsJson solutions_file
  | PatternsJson patterns_file
  | Unreadable

type_synonym file_system = "string \<rightharpoonup> file_content"

definition path_join :: "string \<Rightarrow> string \<Rightarrow> string" where
  "path_join dir name = dir @ ''/'' @ name"

text \<open>\<open>new Map(xs.map(x => [key(x), x]))\<close>: the entries are \<open>set\<close> one after the other.\<close>

definition map_from_list :: "('v \<Rightarrow> string) \<Rightarrow> 'v list \<Rightarrow> 'v js_map" where
  "map_from_list key xs = foldl (\<lambda>m x. AList.update (key x) x m) [] xs"

definition loadKnowledgeBase :: "string \<Rightarrow> file_system \<Rightarrow> knowledge_base" where
  "loadKnowledgeBase base fs =
     \<lparr> solutions =
         (case fs (path_join base ''solutions.json'') of
            Some (SolutionsJson d) \<Rightarrow> map_from_list sol_id (sf_solutions d)
          | _ \<Rightarrow> []),
       patterns =
         (case fs (path_join base ''patterns.json'') of
            Some (PatternsJson d) \<Rightarrow> map_from_list pattern_id (pf_patterns d)
          | _ \<Rightarrow> []),
       basePath = base \<rparr>"

text \<open>
  \<open>saveKnowledgeBase\<close> reads the clock once for each file; the two readings are the
  arguments \<open>now1\<close> and \<open>now2\<close>.
\<close>

definition saveKnowledgeBase ::
  "string \<Rightarrow> knowledge_base \<Rightarrow> string \<Rightarrow> string \<Rightarrow> file_system \<Rightarrow> file_system" where
  "saveKnowledgeBase base kb now1 now2 fs =
     (let solutionsData =
            \<lparr> sf_version = ''1.0'', sf_lastUpdated = now1,
              sf_solutions = map snd (solutions kb) \<rparr>;
          patternsData =
            \<lparr> pf_version = ''1.0'', pf_lastUpdated = now2,
              pf_patterns = map snd (patterns kb) \<rparr>
      in (fs(path_join base ''solutions.json'' \<mapsto> SolutionsJson solutionsData))
           (path_join base ''patterns.json'' \<mapsto> PatternsJson patternsData))"

section \<open>The hybrid step resolver\<close>

text \<open>
  The browser, the AI service and the clock are outside the program.  They are a record
  of functions over an abstract world \<open>'w\<close>: each call takes the world, may fail with an
  error message (\<open>Some msg\<close> stands for a thrown error) and returns the world it leaves.
  \<^item> \<open>page_perform\<close>: the Playwright calls of \<open>executeAction\<close> for a supported action;
  \<^item> \<open>page_goto\<close>, \<open>page_screenshot\<close>: navigation and screenshot;
  \<^item> \<open>oracle_ask\<close>: the screenshot, DOM capture and model call of \<open>executeWithAI\<close> up to
    the parsed reply;
  \<^item> \<open>generator_generateSteps\<close>: \<open>AIFlowGenerator.generateSteps\<close>;
  \<^item> \<open>date_now\<close>: \<open>new Date().toISOString()\<close>;
  \<^item> \<open>md5_hex\<close>: the hex digest of \<open>crypto.createHash('md5')\<close>.
\<close>

datatype oracle_reply = OracleThrows string | NoJsonInReply | Suggests string

record 'w driver =
  page_perform :: "'w \<Rightarrow> string \<Rightarrow> string \<Rightarrow> string option \<Rightarrow> step \<Rightarrow> string option \<times> 'w"
  page_goto :: "'w \<Rightarrow> string \<Rightarrow> string option \<times> 'w"
  page_screenshot :: "'w \<Rightarrow> string \<Rightarrow> string option \<times> 'w"
  oracle_ask :: "'w \<Rightarrow> step \<Rightarrow> oracle_reply \<times> 'w"
  generator_generateSteps :: "'w \<Rightarrow> string \<Rightarrow> (string + step list) \<times> 'w"
  date_now :: "'w \<Rightarrow> string"
  md5_hex :: "string \<Rightarrow> string"

text \<open>
  The configuration the resolver reads.  \<open>cfg_aiClient\<close> tells whether the module-level
  \<open>aiClient\<close> was created, that is whether \<open>ANTHROPIC_API_KEY\<close> was set.
\<close>

record config =
  cfg_url :: string
  cfg_email :: "string option"
  cfg_password :: "string option"
  cfg_outputDir :: string
  cfg_mode :: string
  cfg_aiClient :: bool

record hybridStats =
  totalSteps :: nat
  deterministicSuccess :: nat
  learnedSuccess :: nat
  aiSuccess :: nat
  aiCost :: real

text \<open>
  The trace of a run: which tier called the browser, and each call of a knowledge base
  function.  It is written by the model only, next to the call it records.
\<close>

datatype tier = Deterministic | Learned | AI

datatype event = Attempt tier | KnowledgeBaseRead | KnowledgeBaseWrite

record 'w run_state =
  world :: 'w
  knowledgeBase :: knowledge_base
  stats :: hybridStats
  screenshots :: "string list"
  events :: "event list"

definition supported_actions :: "string list" where
  "supported_actions = [''click'', ''type'', ''fill'', ''clear'', ''verify'', ''wait'', ''navigate'']"

definition executeAction ::
  "'w driver \<Rightarrow> string \<Rightarrow> string \<Rightarrow> string option \<Rightarrow> step \<Rightarrow> 'w \<Rightarrow> string option \<times> 'w" where
  "executeAction env act sel val step w =
     (if act \<in> set supported_actions then page_perform env w act sel val step
      else if act = ''screenshot'' then (None, w)
      else (Some (''Unsupported action: '' @ act), w))"

datatype ai_result = AiSuccess string | AiFailure string

definition executeWithAI ::
  "'w driver \<Rightarrow> step \<Rightarrow> 'w \<Rightarrow> (string + ai_result) \<times> 'w" where
  "executeWithAI env step w =
     (case oracle_ask env w step of
        (OracleThrows msg, w1) \<Rightarrow> (Inl msg, w1)
      | (NoJsonInReply, w1) \<Rightarrow> (Inr (AiFailure ''Failed to parse AI response''), w1)
      | (Suggests sel, w1) \<Rightarrow>
          (case executeAction env (step_action step) sel (step_value step) step w1 of
             (None, w2) \<Rightarrow> (Inr (AiSuccess sel), w2)
           | (Some msg, w2) \<Rightarrow> (Inr (AiFailure msg), w2)))"

definition log_event :: "event \<Rightarrow> 'w run_state \<Rightarrow> 'w run_state" where
  "log_event e st = st\<lparr> events := events st @ [e] \<rparr>"

definition step_params :: "config \<Rightarrow> (string \<rightharpoonup> string)" where
  "step_params cfg =
     (\<lambda>key. if key = ''email'' then cfg_email cfg
            else if key = ''password'' then cfg_password cfg
            else if key = ''baseUrl'' then Some (cfg_url cfg)
            else None)"

text \<open>The third tier of \<open>executeStepHybrid\<close>; the result tells whether the step returned.\<close>

definition ai_tier ::
  "'w driver \<Rightarrow> config \<Rightarrow> executionContext \<Rightarrow> step \<Rightarrow> 'w run_state \<Rightarrow> bool \<times> 'w run_state" where
  "ai_tier env cfg context step st =
     (if cfg_aiClient cfg \<and> cfg_mode cfg = ''hybrid'' then
        (let st1 = log_event (Attempt AI) st
         in case executeWithAI env step (world st1) of
              (Inr (AiSuccess sel), w) \<Rightarrow>
                (let st2 = log_event KnowledgeBaseWrite (st1\<lparr> world := w \<rparr>)
                 in (True,
                     st2\<lparr> knowledgeBase :=
                            recordSolution (md5_hex env) (date_now env w) step sel context
                              (knowledgeBase st2),
                          stats := (stats st2)
                            \<lparr> aiSuccess := aiSuccess (stats st2) + 1,
                              aiCost := aiCost (stats st2) + 0.016 \<rparr> \<rparr>))
            | (Inr (AiFailure msg), w) \<Rightarrow> (False, st1\<lparr> world := w \<rparr>)
            | (Inl msg, w) \<Rightarrow>
                (False,
                 st1\<lparr> world := w,
                      stats := (stats st1)\<lparr> aiCost := aiCost (stats st1) + 0.016 \<rparr> \<rparr>))
      else (False, st))"

text \<open>The second tier; the result tells whether the step returned.\<close>

definition learned_tier ::
  "'w driver \<Rightarrow> executionContext \<Rightarrow> step \<Rightarrow> string \<Rightarrow> 'w run_state \<Rightarrow> bool \<times> 'w run_state" where
  "learned_tier env context step val st =
     (let st1 = log_event KnowledgeBaseRead st
      in case findLearnedSolution (md5_hex env) step context (knowledgeBase st1) of
           None \<Rightarrow> (False, st1)
         | Some learnedSolution \<Rightarrow>
             (let st2 = log_event (Attempt Learned) st1
              in case executeAction env (step_action step) (learnedSelector learnedSolution)
                        (Some val) step (world st2) of
                   (None, w) \<Rightarrow>
                     (let st3 = log_event KnowledgeBaseWrite (st2\<lparr> world := w \<rparr>)
                      in (True,
                          st3\<lparr> knowledgeBase :=
                                 recordSuccess (date_now env w) (sol_id learnedSolution)
                                   (knowledgeBase st3),
                               stats := (stats st3)
                                 \<lparr> learnedSuccess := learnedSuccess (stats st3) + 1 \<rparr> \<rparr>))
                 | (Some msg, w) \<Rightarrow>
                     (let st3 = log_event KnowledgeBaseWrite (st2\<lparr> world := w \<rparr>)
                      in (False,
                          st3\<lparr> knowledgeBase :=
                                 recordFailure (sol_id learnedSolution) (knowledgeBase st3) \<rparr>))))"

definition add_deterministicSuccess :: "'w run_state \<Rightarrow> 'w run_state" where
  "add_deterministicSuccess st =
     st\<lparr> stats := (stats st)\<lparr> deterministicSuccess := deterministicSuccess (stats st) + 1 \<rparr> \<rparr>"

definition add_totalSteps :: "'w run_state \<Rightarrow> 'w run_state" where
  "add_totalSteps st = st\<lparr> stats := (stats st)\<lparr> totalSteps := totalSteps (stats st) + 1 \<rparr> \<rparr>"

text \<open>
  The selector and the value a step runs with: parameters replaced, and the selector
  normalised.
\<close>

definition resolved_selector :: "config \<Rightarrow> step \<Rightarrow> string" where
  "resolved_selector cfg step =
     convertSelector
       (replaceParams (or_else (step_selector step) (or_else (step_target step) []))
          (step_params cfg))"

definition resolved_value :: "config \<Rightarrow> step \<Rightarrow> string" where
  "resolved_value cfg step = replaceParams (or_else (step_value step) []) (step_params cfg)"

fun show_nat :: "nat \<Rightarrow> string" where
  "show_nat n =
     (if n < 10 then [char_of (48 + n)]
      else show_nat (n div 10) @ [char_of (48 + n mod 10)])"

declare show_nat.simps [simp del]

definition dots_to_underscores :: "string \<Rightarrow> string" where
  "dots_to_underscores s = map (\<lambda>c. if c = CHR ''.'' then CHR ''_'' else c) s"

text \<open>
  \<open>executeStepHybrid\<close>.  The result is \<open>Some msg\<close> when the step throws and \<open>None\<close> when
  it returns.
\<close>

definition executeStepHybrid ::
  "'w driver \<Rightarrow> config \<Rightarrow> executionContext \<Rightarrow> step \<Rightarrow> nat \<Rightarrow> string \<Rightarrow> 'w run_state
     \<Rightarrow> string option \<times> 'w run_state" where
  "executeStepHybrid env cfg context step stepNumber flowPath st0 =
     (let st = add_totalSteps st0;
          sel = resolved_selector cfg step;
          val = resolved_value cfg step;
          u = or_else (step_url step) (or_else (step_target step) [])
      in if step_action step = ''navigate'' then
           (let fullUrl = (if u \<noteq> [] \<and> startsWith u ''/'' then cfg_url cfg @ u
                           else if u = [] then cfg_url cfg
                           else u)
            in case page_goto env (world st) fullUrl of
                 (Some msg, w) \<Rightarrow> (Some msg, st\<lparr> world := w \<rparr>)
               | (None, w) \<Rightarrow> (None, add_deterministicSuccess (st\<lparr> world := w \<rparr>)))
         else if step_action step = ''screenshot'' then
           (let name = or_else (step_filename step)
                         (or_else (Some val)
                            (dots_to_underscores flowPath @ ''_step'' @ show_nat stepNumber @ ''.png''));
                screenshotPath = path_join (path_join (cfg_outputDir cfg) ''screenshots'') name
            in case page_screenshot env (world st) screenshotPath of
                 (Some msg, w) \<Rightarrow> (Some msg, st\<lparr> world := w \<rparr>)
               | (None, w) \<Rightarrow>
                   (None,
                    add_deterministicSuccess
                      (st\<lparr> world := w, screenshots := screenshots st @ [screenshotPath] \<rparr>)))
         else
           (let st1 = log_event (Attempt Deterministic) st
            in case executeAction env (step_action step) sel (Some val) step (world st1) of
                 (None, w) \<Rightarrow> (None, add_deterministicSuccess (st1\<lparr> world := w \<rparr>))
               | (Some msg, w) \<Rightarrow>
                   (case learned_tier env context step val (st1\<lparr> world := w \<rparr>) of
                      (True, st2) \<Rightarrow> (None, st2)
                    | (False, st2) \<Rightarrow>
                        (case ai_tier env cfg context step st2 of
                           (True, st3) \<Rightarrow> (None, st3)
                         | (False, st3) \<Rightarrow>
                             (Some (''All execution methods failed for step: '' @ step_action step),
                              st3)))))"

subsection \<open>Running a flow\<close>

text \<open>
  \<open>flowsData\<close> is a tree of objects that \<open>getFlowByPath\<close> walks along the dot-separated
  path; the model takes the lookup as a map from paths to flow definitions.
\<close>

record flow =
  flow_name :: "string option"
  flow_prompt :: "string option"
  flow_steps :: "step list option"

datatype status = Pending | Passed | Failed

record flow_result =
  res_flowPath :: string
  res_status :: status
  res_error :: "string option"
  res_screenshots :: "string list"

fun run_steps ::
  "'w driver \<Rightarrow> config \<Rightarrow> executionContext \<Rightarrow> string \<Rightarrow> nat \<Rightarrow> step list \<Rightarrow> 'w run_state
     \<Rightarrow> string option \<times> 'w run_state" where
  "run_steps env cfg context flowPath i [] st = (None, st)"
| "run_steps env cfg context flowPath i (step # rest) st =
     (case executeStepHybrid env cfg context step (i + 1) flowPath st of
        (Some msg, st') \<Rightarrow> (Some msg, st')
      | (None, st') \<Rightarrow> run_steps env cfg context flowPath (i + 1) rest st')"

text \<open>
  The \<open>try\<close> block of \<open>executeFlow\<close>.  For a prompt-based flow the generated steps
  are also written back to the flows file (\<open>saveGeneratedFlow\<close>, which catches its own
  errors); that file is outside the model.
\<close>

definition executeFlow_body ::
  "'w driver \<Rightarrow> config \<Rightarrow> (string \<rightharpoonup> flow) \<Rightarrow> string \<Rightarrow> 'w run_state
     \<Rightarrow> string option \<times> 'w run_state" where
  "executeFlow_body env cfg flowsData flowPath st =
     (case flowsData flowPath of
        None \<Rightarrow> (Some (''Flow not found: '' @ flowPath), st)
      | Some fl \<Rightarrow>
          (let generated =
                 (if or_else (flow_prompt fl) [] \<noteq> [] \<and> flow_steps fl = None then
                    (if \<not> cfg_aiClient cfg then
                       (Inl ''AI client required for prompt-based flows. Set ANTHROPIC_API_KEY.'', st)
                     else
                       (case generator_generateSteps env (world st) (or_else (flow_prompt fl) []) of
                          (Inl msg, w) \<Rightarrow> (Inl msg, st\<lparr> world := w \<rparr>)
                        | (Inr steps, w) \<Rightarrow> (Inr (Some steps), st\<lparr> world := w \<rparr>)))
                  else (Inr (flow_steps fl), st))
           in case generated of
                (Inl msg, st1) \<Rightarrow> (Some msg, st1)
              | (Inr None, st1) \<Rightarrow> (Some ''Flow has no steps'', st1)
              | (Inr (Some steps), st1) \<Rightarrow>
                  if steps = [] then (Some ''Flow has no steps'', st1)
                  else
                    (let executionContext =
                           \<lparr> ctx_flowPath = flowPath, ctx_url = cfg_url cfg,
                             ctx_pageType = classifyPage (cfg_url cfg) \<rparr>
                     in run_steps env cfg executionContext flowPath 0 steps st1)))"

definition executeFlow ::
  "'w driver \<Rightarrow> config \<Rightarrow> (string \<rightharpoonup> flow) \<Rightarrow> string \<Rightarrow> 'w run_state
     \<Rightarrow> flow_result \<times> 'w run_state" where
  "executeFlow env cfg flowsData flowPath st0 =
     (case executeFlow_body env cfg flowsData flowPath (st0\<lparr> screenshots := [] \<rparr>) of
        (None, st) \<Rightarrow>
          (\<lparr> res_flowPath = flowPath, res_status = Passed, res_error = None,
             res_screenshots = screenshots st \<rparr>, st)
      | (Some msg, st) \<Rightarrow>
          (let errorScreenshot =
                 path_join (path_join (cfg_outputDir cfg) ''screenshots'')
                   (dots_to_underscores flowPath @ ''_error.png'')
           in case page_screenshot env (world st) errorScreenshot of
                (None, w) \<Rightarrow>
                  (\<lparr> res_flowPath = flowPath, res_status = Failed, res_error = Some msg,
                     res_screenshots = screenshots st @ [errorScreenshot] \<rparr>,
                   st\<lparr> world := w, screenshots := screenshots st @ [errorScreenshot] \<rparr>)
              | (Some _, w) \<Rightarrow>
                  (\<lparr> res_flowPath = flowPath, res_status = Failed, res_error = Some msg,
                     res_screenshots = screenshots st \<rparr>,
                   st\<lparr> world := w \<rparr>)))"

section \<open>The learned tier of the CI runner\<close>








section \<open>The execute_flow tool\<close>

text \<open>
  The tool of \<open>execute_flow.ts\<close> runs a flow without the learned and the AI tier.  The
  body of its \<open>switch\<close> over the step's action drives the browser; it is the function
  \<open>tool_perform\<close> of the environment, given the step, its substituted target and value
  and the base URL.  \<open>tool_screenshot\<close> is \<open>page.screenshot\<close>.
\<close>

record FlowStep =
  fs_step :: nat
  fs_action :: string
  fs_target :: "string option"
  fs_value :: "string option"
  fs_optional :: bool

record FlowDefinition =
  fd_name :: string
  fd_steps :: "FlowStep list option"
  fd_requiredParams :: "string list option"

text \<open>
  The loaded QA context: the flows (looked up by dot path, as above), the two maps of
  \<open>commonParameters\<close> and the base URL of the metadata.
\<close>

record qa_context =
  qa_flows :: "string \<rightharpoonup> FlowDefinition"
  qa_testData :: "(string \<rightharpoonup> string) option"
  qa_testCredentials :: "(string \<rightharpoonup> string) option"
  qa_baseUrl :: "string option"

record tool_params =
  tp_flowPath :: string
  tp_params :: "(string \<rightharpoonup> string) option"
  tp_takeScreenshots :: bool
  tp_stopOnError :: bool
  tp_baseUrl :: "string option"

record 'w tool_driver =
  tool_perform :: "'w \<Rightarrow> FlowStep \<Rightarrow> string \<Rightarrow> string \<Rightarrow> string \<Rightarrow> string option \<times> 'w"
  tool_screenshot :: "'w \<Rightarrow> string option \<times> 'w"

text \<open>
  What a run leaves: the world, the number of the last failed step, the numbers of the
  steps whose \<open>Step n\<close> line was written to the execution log, and the number of
  screenshots.
\<close>

record 'w tool_run =
  tr_world :: 'w
  tr_failedStep :: "nat option"
  tr_started :: "nat list"
  tr_screenshots :: nat

datatype 'w tool_output =
    ContextNotLoaded
  | FlowNotFound
  | MissingParameters "string list"
  | Completed "'w tool_run"

text \<open>
  The defaults loop: \<open>if (defaults[missing]) flowParams[missing] = defaults[missing]\<close>.
  An empty string is falsy.  (An inherited member would be stored as it is; the model
  stores its text, which is all that the substitution reads of it.  The loop never meets
  one: a name that every object inherits is never missing.)
\<close>

definition apply_defaults ::
  "(string \<rightharpoonup> string) \<Rightarrow> (string \<rightharpoonup> string) \<Rightarrow> string list \<Rightarrow> (string \<rightharpoonup> string)" where
  "apply_defaults defaults flowParams missingParams =
     foldl (\<lambda>fp missing.
              case js_get defaults missing of
                None \<Rightarrow> fp
              | Some v \<Rightarrow> if truthy v then fp(missing \<mapsto> to_text v) else fp)
       flowParams missingParams"

definition screenshot_actions :: "string list" where
  "screenshot_actions = [''navigate'', ''click'', ''verify'']"

text \<open>The \<open>catch\<close> block of a step; the result tells whether the loop goes on.\<close>

definition tool_step_failed ::
  "'w tool_driver \<Rightarrow> tool_params \<Rightarrow> FlowStep \<Rightarrow> 'w \<Rightarrow> 'w tool_run \<Rightarrow> bool \<times> 'w tool_run" where
  "tool_step_failed env params stepDef w r =
     (let r1 = r\<lparr> tr_world := w, tr_failedStep := Some (fs_step stepDef) \<rparr>;
          r2 = (if tp_takeScreenshots params then
                  (case tool_screenshot env w of
                     (None, w') \<Rightarrow> r1\<lparr> tr_world := w', tr_screenshots := tr_screenshots r1 + 1 \<rparr>
                   | (Some _, w') \<Rightarrow> r1\<lparr> tr_world := w' \<rparr>)
                else r1)
      in (\<not> (tp_stopOnError params \<and> \<not> fs_optional stepDef), r2))"

definition tool_step ::
  "'w tool_driver \<Rightarrow> tool_params \<Rightarrow> (string \<rightharpoonup> string) \<Rightarrow> string \<Rightarrow> FlowStep \<Rightarrow> 'w tool_run
     \<Rightarrow> bool \<times> 'w tool_run" where
  "tool_step env params flowParams baseUrl stepDef r0 =
     (let r = r0\<lparr> tr_started := tr_started r0 @ [fs_step stepDef] \<rparr>;
          tgt = substituteParams (or_else (fs_target stepDef) []) flowParams;
          val = substituteParams (or_else (fs_value stepDef) []) flowParams
      in case tool_perform env (tr_world r) stepDef tgt val baseUrl of
           (Some msg, w) \<Rightarrow> tool_step_failed env params stepDef w r
         | (None, w) \<Rightarrow>
             if tp_takeScreenshots params \<and> fs_action stepDef \<in> set screenshot_actions then
               (case tool_screenshot env w of
                  (Some msg, w') \<Rightarrow> tool_step_failed env params stepDef w' r
                | (None, w') \<Rightarrow>
                    (True, r\<lparr> tr_world := w', tr_screenshots := tr_screenshots r + 1 \<rparr>))
             else (True, r\<lparr> tr_world := w \<rparr>))"

fun run_tool_steps ::
  "'w tool_driver \<Rightarrow> tool_params \<Rightarrow> (string \<rightharpoonup> string) \<Rightarrow> string \<Rightarrow> FlowStep list \<Rightarrow> 'w tool_run
     \<Rightarrow> 'w tool_run" where
  "run_tool_steps env params flowParams baseUrl [] r = r"
| "run_tool_steps env params flowParams baseUrl (stepDef # rest) r =
     (case tool_step env params flowParams baseUrl stepDef r of
        (True, r') \<Rightarrow> run_tool_steps env params flowParams baseUrl rest r'
      | (False, r') \<Rightarrow> r')"

definition map_or_empty :: "(string \<rightharpoonup> string) option \<Rightarrow> (string \<rightharpoonup> string)" where
  "map_or_empty m = (case m of None \<Rightarrow> Map.empty | Some f \<Rightarrow> f)"

text \<open>\<open>ExecuteFlowTool.execute\<close>; its first argument is the result of \<open>getQAContext()\<close>.\<close>

definition execute ::
  "'w tool_driver \<Rightarrow> qa_context option \<Rightarrow> tool_params \<Rightarrow> 'w \<Rightarrow> 'w tool_output \<times> 'w" where
  "execute env qaContext params w =
     (case qaContext of
        None \<Rightarrow> (ContextNotLoaded, w)
      | Some qa \<Rightarrow>
          (case qa_flows qa (tp_flowPath params) of
             None \<Rightarrow> (FlowNotFound, w)
           | Some fl \<Rightarrow>
               (case fd_steps fl of
                  None \<Rightarrow> (FlowNotFound, w)
                | Some steps \<Rightarrow>
                    (let flowParams0 = map_or_empty (tp_params params);
                         required = (case fd_requiredParams fl of None \<Rightarrow> [] | Some ps \<Rightarrow> ps);
                         missingParams = filter (\<lambda>p. \<not> js_in p flowParams0) required;
                         defaults = map_or_empty (qa_testData qa) ++ map_or_empty (qa_testCredentials qa);
                         flowParams = (if missingParams \<noteq> []
                                       then apply_defaults defaults flowParams0 missingParams
                                       else flowParams0);
                         stillMissing = (if missingParams \<noteq> []
                                         then filter (\<lambda>p. \<not> js_in p flowParams) required
                                         else []);
                         baseUrl = or_else (tp_baseUrl params) (or_else (qa_baseUrl qa) [])
                     in if stillMissing \<noteq> [] then (MissingParameters stillMissing, w)
                        else
                          (let r = run_tool_steps env params flowParams baseUrl steps
                                     \<lparr> tr_world = w, tr_failedStep = None,
                                       tr_started = [], tr_screenshots = 0 \<rparr>
                           in (Completed r, tr_world r))))))"

definition tool_success :: "'w tool_run \<Rightarrow> bool" where
  "tool_success r \<longleftrightarrow> tr_failedStep r = None"

section \<open>Predicates and sample inputs of the properties\<close>

text \<open>
  The life of a knowledge base: it starts empty (no file), and from then on it is changed
  by \<open>recordSolution\<close>, \<open>recordSuccess\<close> and \<open>recordFailure\<close> only, or it is saved and
  loaded again.
\<close>

inductive lifecycle :: "(string \<Rightarrow> string) \<Rightarrow> knowledge_base \<Rightarrow> bool"
  for md5hex :: "string \<Rightarrow> string" where
  fresh: "lifecycle md5hex \<lparr> solutions = [], patterns = ps, basePath = b \<rparr>"
| learn: "lifecycle md5hex kb \<Longrightarrow>
     lifecycle md5hex (recordSolution md5hex now step sel context kb)"
| success: "lifecycle md5hex kb \<Longrightarrow> lifecycle md5hex (recordSuccess now k kb)"
| failure: "lifecycle md5hex kb \<Longrightarrow> lifecycle md5hex (recordFailure k kb)"
| reload: "lifecycle md5hex kb \<Longrightarrow>
     lifecycle md5hex (loadKnowledgeBase b (saveKnowledgeBase b kb now1 now2 fs))"

text \<open>Every entry of the map stands under its own id, and no key occurs twice.\<close>

definition keyed_by_id :: "solution js_map \<Rightarrow> bool" where
  "keyed_by_id al \<longleftrightarrow> distinct (map fst al) \<and> list_all (\<lambda>(k, s). k = sol_id s) al"

definition entry_ok :: "string \<times> solution \<Rightarrow> bool" where
  "entry_ok e \<longleftrightarrow> 0.4 \<le> confidence (snd e) \<and> confidence (snd e) \<le> 0.99"

definition kb_invariant :: "solution js_map \<Rightarrow> bool" where
  "kb_invariant al \<longleftrightarrow> keyed_by_id al \<and> list_all entry_ok al"

text \<open>
  The knowledge base keeps its keys, and stays keyed by id.
\<close>

definition kb_kept :: "knowledge_base \<Rightarrow> knowledge_base \<Rightarrow> bool" where
  "kb_kept kb kb' \<longleftrightarrow>
     keyed_by_id (solutions kb') \<and> fst ` set (solutions kb) \<subseteq> fst ` set (solutions kb')"

text \<open>The tiers that called the browser, in the order of their calls.\<close>

fun attempts :: "event list \<Rightarrow> tier list" where
  "attempts [] = []"
| "attempts (Attempt t # es) = t # attempts es"
| "attempts (e # es) = attempts es"

text \<open>No match of the expression starts inside \<open>pre\<close>, read in front of \<open>rest\<close>.\<close>

fun token_free :: "(string \<Rightarrow> ('g \<times> string) option) \<Rightarrow> string \<Rightarrow> string \<Rightarrow> bool" where
  "token_free m [] rest = True"
| "token_free m (c # cs) rest = (m (c # cs @ rest) = None \<and> token_free m cs rest)"

text \<open>A key of a token: a non-empty run of word characters.\<close>

definition word_key :: "string \<Rightarrow> bool" where
  "word_key k \<longleftrightarrow> k \<noteq> [] \<and> list_all is_word_char k"

text \<open>Sample inputs: a click on a selector, the login page, a stand-in for the digest.\<close>

definition ex_hash :: "string \<Rightarrow> string" where
  "ex_hash s = ''5f4dcc3b5aa765d61d8327deb882cf99''"

definition ex_click :: step where
  "ex_click =
     \<lparr> step_action = ''click'', step_selector = None, step_target = Some ''#missing'',
       step_value = None, step_url = None, step_description = None, step_filename = None \<rparr>"

definition ex_context :: executionContext where
  "ex_context =
     \<lparr> ctx_flowPath = ''authentication.login'', ctx_url = ''https://app.test/login'',
       ctx_pageType = ''authentication'' \<rparr>"

definition ex_empty_kb :: knowledge_base where
  "ex_empty_kb = \<lparr> solutions = [], patterns = [], basePath = ''.opencode/qa-knowledge'' \<rparr>"

definition ex_solution :: "real \<Rightarrow> solution" where
  \<open>ex_solution c =
     \<lparr> sol_id = ''click-5f4dcc3b'', sol_flowPath = ''authentication.login'',
       stepAction = ''click'', originalSelector = ''#missing'',
       learnedSelector = ''button:has-text("Login")'', confidence = c,
       successCount = 1, failureCount = 0,
       pageContext = \<lparr> page_url = ''https://app.test/login'', pageType = ''authentication'' \<rparr>,
       learnedAt = ''2024-01-01T00:00:00.000Z'', lastUsed = ''2024-01-01T00:00:00.000Z'' \<rparr>\<close>

definition ex_kb :: "real \<Rightarrow> knowledge_base" where
  "ex_kb c = ex_empty_kb\<lparr> solutions := [(''click-5f4dcc3b'', ex_solution c)] \<rparr>"

text \<open>
  A sample browser whose world counts the calls made: only one selector matches an
  element, and the oracle suggests \<open>button:has-text("Login")\<close>.
\<close>

definition ex_driver :: "string \<Rightarrow> nat driver" where
  \<open>ex_driver matching =
     \<lparr> page_perform = (\<lambda>w act sel val step.
          (if sel = matching then None else Some ''Timeout 10000ms exceeded'', w + 1)),
       page_goto = (\<lambda>w u. (None, w + 1)),
       page_screenshot = (\<lambda>w p. (None, w + 1)),
       oracle_ask = (\<lambda>w step. (Suggests ''button:has-text("Login")'', w + 1)),
       generator_generateSteps = (\<lambda>w prompt. (Inl ''no generator'', w)),
       date_now = (\<lambda>w. ''2024-01-02T00:00:00.000Z''),
       md5_hex = ex_hash \<rparr>\<close>

definition ex_login_button :: string where
  \<open>ex_login_button = ''button:has-text("Login")''\<close>

definition ex_login_click :: step where
  "ex_login_click =
     \<lparr> step_action = ''click'', step_selector = Some ''button:contains('Login')'',
       step_target = None, step_value = None, step_url = None,
       step_description = Some ''Click {email}'', step_filename = None \<rparr>"

definition ex_config :: "bool \<Rightarrow> config" where
  "ex_config ai =
     \<lparr> cfg_url = ''https://app.test/login'', cfg_email = Some ''qa@app.test'',
       cfg_password = None, cfg_outputDir = ''./qa-results'', cfg_mode = ''hybrid'',
       cfg_aiClient = ai \<rparr>"

definition ex_state :: "knowledge_base \<Rightarrow> nat run_state" where
  "ex_state kb =
     \<lparr> world = 0, knowledgeBase = kb,
       stats = \<lparr> totalSteps = 0, deterministicSuccess = 0, learnedSuccess = 0,
                 aiSuccess = 0, aiCost = 0 \<rparr>,
       screenshots = [], events = [] \<rparr>"

definition ex_flows :: "string \<rightharpoonup> flow" where
  "ex_flows =
     [''authentication.login'' \<mapsto>
        \<lparr> flow_name = Some ''Login'', flow_prompt = None, flow_steps = Some [ex_click] \<rparr>]"

definition ex_file :: solutions_file where
  "ex_file =
     \<lparr> sf_version = ''1.0'', sf_lastUpdated = ''2024-01-01T00:00:00.000Z'',
       sf_solutions = [ex_solution 0.7] \<rparr>"

definition ex_fs :: file_system where
  "ex_fs = [''.opencode/qa-knowledge/solutions.json'' \<mapsto> SolutionsJson ex_file]"

definition ex_login_flow :: "string list \<Rightarrow> FlowDefinition" where
  "ex_login_flow required =
     \<lparr> fd_name = ''Login'',
       fd_steps = Some [\<lparr> fs_step = 1, fs_action = ''type'', fs_target = Some ''#email'',
                          fs_value = Some ''{email}'', fs_optional = False \<rparr>],
       fd_requiredParams = Some required \<rparr>"

definition ex_qa :: "string list \<Rightarrow> string \<Rightarrow> qa_context" where
  "ex_qa required default_email =
     \<lparr> qa_flows = [''authentication.login'' \<mapsto> ex_login_flow required],
       qa_testData = Some [''email'' \<mapsto> default_email],
       qa_testCredentials = None,
       qa_baseUrl = Some ''https://app.test'' \<rparr>"

definition ex_tool_params :: tool_params where
  "ex_tool_params =
     \<lparr> tp_flowPath = ''authentication.login'', tp_params = None,
       tp_takeScreenshots = False, tp_stopOnError = True, tp_baseUrl = None \<rparr>"

text \<open>A sample browser for the tool: the world is the list of values typed so far.\<close>

definition ex_tool_driver :: "string list tool_driver" where
  "ex_tool_driver =
     \<lparr> tool_perform = (\<lambda>w stepDef tgt val baseUrl. (None, w @ [val])),
       tool_screenshot = (\<lambda>w. (None, w)) \<rparr>"




section \<open>Properties of the knowledge base\<close>

lemma update_append: "k \<notin> fst ` set al \<Longrightarrow> AList.update k v al = al @ [(k, v)]"
  by (induction al) auto

lemma map_from_list_acc:
  "distinct (map key xs) \<Longrightarrow> key ` set xs \<inter> fst ` set acc = {} \<Longrightarrow>
   foldl (\<lambda>m x. AList.update (key x) x m) acc xs = acc @ map (\<lambda>x. (key x, x)) xs"
proof (induction xs arbitrary: acc)
  case Nil
  then show ?case by simp
next
  case (Cons x xs)
  have "AList.update (key x) x acc = acc @ [(key x, x)]"
    using Cons.prems by (intro update_append) auto
  moreover have "key ` set xs \<inter> fst ` set (acc @ [(key x, x)]) = {}"
    using Cons.prems by auto
  ultimately show ?case using Cons.IH[of "acc @ [(key x, x)]"] Cons.prems by simp
qed

lemma map_from_list_distinct:
  "distinct (map key xs) \<Longrightarrow> map_from_list key xs = map (\<lambda>x. (key x, x)) xs"
  unfolding map_from_list_def using map_from_list_acc[of key xs "[]"] by simp

lemma map_from_list_values:
  "keyed_by_id al \<Longrightarrow> map_from_list sol_id (map snd al) = al"
proof -
  assume k: "keyed_by_id al"
  then have eq: "map sol_id (map snd al) = map fst al"
    by (induction al) (auto simp: keyed_by_id_def)
  from k have "distinct (map fst al)" by (simp add: keyed_by_id_def)
  then have "distinct (map sol_id (map snd al))" by (simp only: eq)
  then have "map_from_list sol_id (map snd al) = map (\<lambda>x. (sol_id x, x)) (map snd al)"
    by (rule map_from_list_distinct)
  also have "\<dots> = al" using k by (induction al) (auto simp: keyed_by_id_def)
  finally show ?thesis .
qed

lemma path_join_inj: "path_join b x = path_join b y \<longleftrightarrow> x = y"
  by (simp add: path_join_def)

lemma load_save_solutions:
  "keyed_by_id (solutions kb) \<Longrightarrow>
   solutions (loadKnowledgeBase b (saveKnowledgeBase b kb now1 now2 fs)) = solutions kb"
  by (simp add: loadKnowledgeBase_def saveKnowledgeBase_def path_join_inj map_from_list_values)


lemma set_update_subset: "set (AList.update k v al) \<subseteq> insert (k, v) (set al)"
  by (induction al) auto

lemma set_delete_subset: "set (AList.delete k al) \<subseteq> set al"
  by (induction al) auto

lemma kb_invariant_update:
  assumes "kb_invariant al" and "k = sol_id v" and "0.4 \<le> confidence v" and "confidence v \<le> 0.99"
  shows "kb_invariant (AList.update k v al)"
proof -
  have "distinct (map fst (AList.update k v al))"
    using assms(1) by (simp add: kb_invariant_def keyed_by_id_def distinct_update)
  moreover have "\<forall>e \<in> set (AList.update k v al). (case e of (k', s) \<Rightarrow> k' = sol_id s) \<and> entry_ok e"
    using assms set_update_subset[of k v al]
    by (auto simp: kb_invariant_def keyed_by_id_def list_all_iff entry_ok_def)
  ultimately show ?thesis
    by (auto simp: kb_invariant_def keyed_by_id_def list_all_iff)
qed

lemma kb_invariant_delete:
  assumes "kb_invariant al"
  shows "kb_invariant (AList.delete k al)"
proof -
  have "distinct (map fst (AList.delete k al))"
    using assms by (simp add: kb_invariant_def keyed_by_id_def distinct_delete)
  moreover have "\<forall>e \<in> set (AList.delete k al). (case e of (k', s) \<Rightarrow> k' = sol_id s) \<and> entry_ok e"
    using assms set_delete_subset[of k al]
    by (auto simp: kb_invariant_def keyed_by_id_def list_all_iff)
  ultimately show ?thesis
    by (auto simp: kb_invariant_def keyed_by_id_def list_all_iff)
qed

lemma kb_invariant_lookup:
  assumes "kb_invariant al" and "map_of al k = Some s"
  shows "k = sol_id s \<and> 0.4 \<le> confidence s \<and> confidence s \<le> 0.99"
proof -
  from assms(2) have "(k, s) \<in> set al" by (rule map_of_SomeD)
  with assms(1) show ?thesis
    by (auto simp: kb_invariant_def keyed_by_id_def list_all_iff entry_ok_def)
qed

lemma kb_invariant_recordSolution:
  "kb_invariant (solutions kb) \<Longrightarrow>
   kb_invariant (solutions (recordSolution md5hex now step sel context kb))"
  by (simp add: recordSolution_def Let_def kb_invariant_update)

lemma kb_invariant_recordSuccess:
  assumes "kb_invariant (solutions kb)"
  shows "kb_invariant (solutions (recordSuccess now k kb))"
proof (cases "map_of (solutions kb) k")
  case None
  then show ?thesis using assms by (simp add: recordSuccess_def)
next
  case (Some s)
  with assms have s: "k = sol_id s \<and> 0.4 \<le> confidence s \<and> confidence s \<le> 0.99"
    by (intro kb_invariant_lookup)
  define s' where "s' = s\<lparr> successCount := successCount s + 1, lastUsed := now,
                             confidence := min 0.99 (confidence s + 0.02) \<rparr>"
  have "k = sol_id s'" using s by (simp add: s'_def)
  moreover have "0.4 \<le> confidence s'" using s by (simp add: s'_def min_def)
  moreover have "confidence s' \<le> 0.99" by (simp add: s'_def min_def)
  ultimately have "kb_invariant (AList.update k s' (solutions kb))"
    using assms by (intro kb_invariant_update)
  then show ?thesis using Some by (simp add: recordSuccess_def s'_def)
qed

lemma recordFailure_found:
  assumes "map_of (solutions kb) k = Some s"
    and "s' = s\<lparr> failureCount := failureCount s + 1, confidence := max 0.3 (confidence s - 0.1) \<rparr>"
  shows "recordFailure k kb =
           (if confidence s' < 0.4 then kb\<lparr> solutions := AList.delete k (solutions kb) \<rparr>
            else kb\<lparr> solutions := AList.update k s' (solutions kb) \<rparr>)"
  unfolding recordFailure_def Let_def assms by simp

lemma kb_invariant_recordFailure:
  assumes "kb_invariant (solutions kb)"
  shows "kb_invariant (solutions (recordFailure k kb))"
proof (cases "map_of (solutions kb) k")
  case None
  then show ?thesis using assms by (simp add: recordFailure_def)
next
  case (Some s)
  with assms have s: "k = sol_id s \<and> 0.4 \<le> confidence s \<and> confidence s \<le> 0.99"
    by (intro kb_invariant_lookup)
  define s' where "s' = s\<lparr> failureCount := failureCount s + 1,
                             confidence := max 0.3 (confidence s - 0.1) \<rparr>"
  note rf = recordFailure_found[OF Some s'_def]
  show ?thesis
  proof (cases "confidence s' < 0.4")
    case True
    then have "recordFailure k kb = kb\<lparr> solutions := AList.delete k (solutions kb) \<rparr>"
      by (simp only: rf if_True)
    then show ?thesis using assms by (simp add: kb_invariant_delete)
  next
    case False
    then have eq: "recordFailure k kb = kb\<lparr> solutions := AList.update k s' (solutions kb) \<rparr>"
      by (simp only: rf if_False)
    have "k = sol_id s'" using s by (simp add: s'_def)
    moreover have "0.4 \<le> confidence s'" using False by simp
    moreover have "confidence s' \<le> 0.99" using s by (simp add: s'_def max_def)
    ultimately have "kb_invariant (AList.update k s' (solutions kb))"
      using assms by (intro kb_invariant_update)
    then show ?thesis by (simp add: eq)
  qed
qed

lemma lifecycle_invariant: "lifecycle md5hex kb \<Longrightarrow> kb_invariant (solutions kb)"
proof (induction rule: lifecycle.induct)
  case (fresh ps b)
  then show ?case by (simp add: kb_invariant_def keyed_by_id_def)
next
  case (reload kb b now1 now2 fs)
  then show ?case by (simp add: load_save_solutions kb_invariant_def)
qed (simp_all add: kb_invariant_recordSolution kb_invariant_recordSuccess kb_invariant_recordFailure)

text \<open>
  C1.  At every point of a solution's life its confidence lies in \<open>[0.3, 0.99]\<close> (and,
  as a retained entry, not below \<open>0.4\<close>).  A success adds \<open>0.02\<close>, capped at \<open>0.99\<close>;
  a failure subtracts \<open>0.1\<close>, clamped at \<open>0.3\<close>; and a failure that takes the confidence
  below \<open>0.4\<close> deletes the entry, so no entry below \<open>0.4\<close> is ever kept.
\<close>

theorem confidence_bounds:
  assumes "lifecycle md5hex kb"
  shows "(\<forall>s \<in> set (map snd (solutions kb)). 0.3 \<le> confidence s \<and> confidence s \<le> 0.99 \<and> 0.4 \<le> confidence s)
     \<and> (\<forall>k s. map_of (solutions kb) k = Some s \<longrightarrow>
           map_of (solutions (recordSuccess now k kb)) k =
             Some (s\<lparr> successCount := successCount s + 1, lastUsed := now,
                      confidence := min 0.99 (confidence s + 0.02) \<rparr>)
         \<and> map_of (solutions (recordFailure k kb)) k =
             (if confidence s - 0.1 < 0.4 then None
              else Some (s\<lparr> failureCount := failureCount s + 1,
                            confidence := max 0.3 (confidence s - 0.1) \<rparr>)))"
proof -
  have inv: "kb_invariant (solutions kb)" using assms by (rule lifecycle_invariant)
  have range: "\<forall>s \<in> set (map snd (solutions kb)). 0.3 \<le> confidence s \<and> confidence s \<le> 0.99 \<and> 0.4 \<le> confidence s"
    using inv by (auto simp: kb_invariant_def list_all_iff entry_ok_def)
  have upd: "map_of (solutions (recordSuccess now k kb)) k =
             Some (s\<lparr> successCount := successCount s + 1, lastUsed := now,
                      confidence := min 0.99 (confidence s + 0.02) \<rparr>)
         \<and> map_of (solutions (recordFailure k kb)) k =
             (if confidence s - 0.1 < 0.4 then None
              else Some (s\<lparr> failureCount := failureCount s + 1,
                            confidence := max 0.3 (confidence s - 0.1) \<rparr>))"
    if "map_of (solutions kb) k = Some s" for k s
  proof -
    define s' where "s' = s\<lparr> failureCount := failureCount s + 1,
                               confidence := max 0.3 (confidence s - 0.1) \<rparr>"
    have c: "confidence s' < 0.4 \<longleftrightarrow> confidence s - 0.1 < 0.4"
      by (simp add: s'_def max_def)
    have "map_of (solutions (recordFailure k kb)) k = (if confidence s - 0.1 < 0.4 then None else Some s')"
      unfolding recordFailure_found[OF that s'_def] c
      by (simp add: update_conv' delete_conv')
    moreover have "map_of (solutions (recordSuccess now k kb)) k =
             Some (s\<lparr> successCount := successCount s + 1, lastUsed := now,
                      confidence := min 0.99 (confidence s + 0.02) \<rparr>)"
      using that by (simp add: recordSuccess_def update_conv')
    ultimately show ?thesis unfolding s'_def by simp
  qed
  show ?thesis using range upd by blast
qed

theorem confidence_bounds_witness:
  \<open>lifecycle ex_hash (recordSolution ex_hash ''2024-01-01T00:00:00.000Z'' ex_click
       ''button:has-text("Login")'' ex_context ex_empty_kb)
   \<and> recordSolution ex_hash ''2024-01-01T00:00:00.000Z'' ex_click
       ''button:has-text("Login")'' ex_context ex_empty_kb = ex_kb 0.7
   \<and> map_of (solutions (recordSuccess ''2024-01-02T00:00:00.000Z'' ''click-5f4dcc3b'' (ex_kb 0.7)))
       ''click-5f4dcc3b''
       = Some ((ex_solution 0.72)\<lparr> successCount := 2, lastUsed := ''2024-01-02T00:00:00.000Z'' \<rparr>)
   \<and> map_of (solutions (recordFailure ''click-5f4dcc3b'' (ex_kb 0.7))) ''click-5f4dcc3b''
       = Some ((ex_solution 0.6)\<lparr> failureCount := 1 \<rparr>)\<close>
proof -
  let ?kb = \<open>recordSolution ex_hash ''2024-01-01T00:00:00.000Z'' ex_click
       ''button:has-text("Login")'' ex_context ex_empty_kb\<close>
  have life: "lifecycle ex_hash ?kb"
    unfolding ex_empty_kb_def by (intro lifecycle.learn lifecycle.fresh)
  have eq: "?kb = ex_kb 0.7"
    by (simp add: recordSolution_def generateKey_def ex_hash_def ex_click_def ex_context_def
          ex_empty_kb_def ex_kb_def ex_solution_def or_else_def)
  have found: "map_of (solutions (ex_kb 0.7)) ''click-5f4dcc3b'' = Some (ex_solution 0.7)"
    by (simp add: ex_kb_def)
  from confidence_bounds[OF life, of "''2024-01-02T00:00:00.000Z''"] found
  show ?thesis
    unfolding eq using life eq by (simp add: ex_solution_def)
qed

lemma find_Some_set: "List.find P xs = Some x \<Longrightarrow> x \<in> set xs \<and> P x"
  by (induction xs) (auto split: if_splits)


lemma findLearnedSolution_sound:
  assumes "findLearnedSolution md5hex step ctx kb = Some s"
  shows "s \<in> set (map snd (solutions kb)) \<and>
         (map_of (solutions kb) (generateKey md5hex step) = Some s \<and> confidence s > 0.8
          \<or> similar_solution step ctx s)"
proof -
  let ?scan = "List.find (similar_solution step ctx) (map snd (solutions kb))"
  let ?exact = "map_of (solutions kb) (generateKey md5hex step)"
  have scan: "s \<in> set (map snd (solutions kb)) \<and> similar_solution step ctx s"
    if "?scan = Some s"
    using that by (rule find_Some_set)
  show ?thesis
  proof (cases ?exact)
    case None
    with assms have "?scan = Some s" by (simp add: findLearnedSolution_def)
    then show ?thesis using scan by blast
  next
    case (Some e)
    show ?thesis
    proof (cases "confidence e > 0.8")
      case True
      with Some assms have "e = s" by (simp add: findLearnedSolution_def)
      moreover have "e \<in> set (map snd (solutions kb))"
        using map_of_SomeD[OF Some] by force
      ultimately show ?thesis using Some True by simp
    next
      case False
      with Some assms have "?scan = Some s" by (simp add: findLearnedSolution_def)
      then show ?thesis using scan by blast
    qed
  qed
qed



lemma keyed_by_id_update:
  assumes "keyed_by_id al" and "k = sol_id v"
  shows "keyed_by_id (AList.update k v al)"
proof -
  have "distinct (map fst (AList.update k v al))"
    using assms(1) by (simp add: keyed_by_id_def distinct_update)
  moreover have "\<forall>e \<in> set (AList.update k v al). case e of (k', s) \<Rightarrow> k' = sol_id s"
    using assms set_update_subset[of k v al] by (auto simp: keyed_by_id_def list_all_iff)
  ultimately show ?thesis by (simp add: keyed_by_id_def list_all_iff)
qed

lemma keyed_by_id_lookup:
  assumes "keyed_by_id al" and "(k, s) \<in> set al"
  shows "k = sol_id s \<and> map_of al k = Some s"
  using assms by (auto simp: keyed_by_id_def list_all_iff)

lemma keys_update: "fst ` set (AList.update k v al) = insert k (fst ` set al)"
  by (induction al) auto

lemma kb_kept_refl: "keyed_by_id (solutions kb) \<Longrightarrow> kb_kept kb kb"
  by (simp add: kb_kept_def)

lemma kb_kept_trans: "kb_kept a b \<Longrightarrow> kb_kept b c \<Longrightarrow> kb_kept a c"
  by (auto simp: kb_kept_def)

lemma kb_kept_keyed: "kb_kept a b \<Longrightarrow> keyed_by_id (solutions b)"
  by (simp add: kb_kept_def)

lemma kb_kept_recordSolution:
  "keyed_by_id (solutions kb) \<Longrightarrow> kb_kept kb (recordSolution md5hex now step sel ctx kb)"
  by (auto simp: kb_kept_def recordSolution_def Let_def keyed_by_id_update keys_update)

lemma kb_kept_recordSuccess:
  assumes "keyed_by_id (solutions kb)"
  shows "kb_kept kb (recordSuccess now k kb)"
proof (cases "map_of (solutions kb) k")
  case None
  with assms show ?thesis by (simp add: recordSuccess_def kb_kept_def)
next
  case (Some e)
  then have "(k, e) \<in> set (solutions kb)" by (rule map_of_SomeD)
  with assms have "k = sol_id e" using keyed_by_id_lookup by blast
  with assms Some show ?thesis
    by (auto simp: recordSuccess_def kb_kept_def keyed_by_id_update keys_update)
qed

lemma findLearnedSolution_selected:
  assumes "findLearnedSolution md5hex step ctx kb = Some s"
  shows "0.75 < confidence s \<and> (\<exists>k. (k, s) \<in> set (solutions kb))"
proof -
  from findLearnedSolution_sound[OF assms]
  show ?thesis by (auto simp: similar_solution_def)
qed

lemma recordFailure_selected:
  assumes "keyed_by_id (solutions kb)"
    and "findLearnedSolution md5hex step ctx kb = Some s"
  shows "recordFailure (sol_id s) kb =
           kb\<lparr> solutions := AList.update (sol_id s)
                  (s\<lparr> failureCount := failureCount s + 1, confidence := confidence s - 0.1 \<rparr>)
                  (solutions kb) \<rparr>"
proof -
  from findLearnedSolution_selected[OF assms(2)] obtain k
    where c: "0.75 < confidence s" and "(k, s) \<in> set (solutions kb)" by blast
  with assms(1) have look: "map_of (solutions kb) (sol_id s) = Some s"
    using keyed_by_id_lookup by blast
  define s' where "s' = s\<lparr> failureCount := failureCount s + 1,
                             confidence := max 0.3 (confidence s - 0.1) \<rparr>"
  have m: "max 0.3 (confidence s - 0.1) = confidence s - 0.1" using c by (simp add: max_def)
  have "\<not> confidence s' < 0.4" using c by (simp add: s'_def max_def)
  then have "recordFailure (sol_id s) kb = kb\<lparr> solutions := AList.update (sol_id s) s' (solutions kb) \<rparr>"
    by (simp only: recordFailure_found[OF look s'_def] if_False)
  then show ?thesis unfolding s'_def m .
qed

lemma kb_kept_recordFailure:
  assumes "keyed_by_id (solutions kb)"
    and "findLearnedSolution md5hex step ctx kb = Some s"
  shows "kb_kept kb (recordFailure (sol_id s) kb)"
  unfolding recordFailure_selected[OF assms]
  using assms(1) by (auto simp: kb_kept_def keyed_by_id_update keys_update)

lemma knowledgeBase_log_event [simp]: "knowledgeBase (log_event e st) = knowledgeBase st"
  by (simp add: log_event_def)

lemma world_log_event [simp]: "world (log_event e st) = world st"
  by (simp add: log_event_def)

lemma stats_log_event [simp]: "stats (log_event e st) = stats st"
  by (simp add: log_event_def)

lemma events_log_event [simp]: "events (log_event e st) = events st @ [e]"
  by (simp add: log_event_def)

lemma screenshots_log_event [simp]: "screenshots (log_event e st) = screenshots st"
  by (simp add: log_event_def)

lemma learned_tier_kept:
  assumes "keyed_by_id (solutions (knowledgeBase st))"
  shows "kb_kept (knowledgeBase st) (knowledgeBase (snd (learned_tier env ctx step val st)))"
proof (cases "findLearnedSolution (md5_hex env) step ctx (knowledgeBase st)")
  case None
  then show ?thesis using assms by (simp add: learned_tier_def Let_def kb_kept_refl)
next
  case (Some s)
  show ?thesis
    using Some kb_kept_recordFailure[OF assms Some]
    by (simp add: learned_tier_def Let_def kb_kept_recordSuccess[OF assms]
             split: prod.splits option.splits)
qed

lemma ai_tier_kept:
  assumes "keyed_by_id (solutions (knowledgeBase st))"
  shows "kb_kept (knowledgeBase st) (knowledgeBase (snd (ai_tier env cfg ctx step st)))"
  using assms
  by (simp add: ai_tier_def Let_def kb_kept_refl kb_kept_recordSolution
           split: prod.splits sum.splits ai_result.splits)

section \<open>Properties of the step resolver\<close>

lemma events_add_totalSteps [simp]: "events (add_totalSteps st) = events st"
  and knowledgeBase_add_totalSteps [simp]: "knowledgeBase (add_totalSteps st) = knowledgeBase st"
  and world_add_totalSteps [simp]: "world (add_totalSteps st) = world st"
  and screenshots_add_totalSteps [simp]: "screenshots (add_totalSteps st) = screenshots st"
  by (simp_all add: add_totalSteps_def)

lemma events_add_deterministicSuccess [simp]: "events (add_deterministicSuccess st) = events st"
  and knowledgeBase_add_deterministicSuccess [simp]:
    "knowledgeBase (add_deterministicSuccess st) = knowledgeBase st"
  and world_add_deterministicSuccess [simp]: "world (add_deterministicSuccess st) = world st"
  by (simp_all add: add_deterministicSuccess_def)

text \<open>What the second tier does, case by case.\<close>

lemma learned_tier_none:
  assumes "findLearnedSolution (md5_hex env) step ctx (knowledgeBase st) = None"
  shows "learned_tier env ctx step val st = (False, log_event KnowledgeBaseRead st)"
  using assms by (simp add: learned_tier_def Let_def)




lemma attempts_append [simp]: "attempts (xs @ ys) = attempts xs @ attempts ys"
  by (induction xs rule: attempts.induct) auto


lemma executeStepHybrid_tiers:
  assumes "step_action step \<noteq> ''navigate''" and "step_action step \<noteq> ''screenshot''"
  shows "executeStepHybrid env cfg ctx step n fp st =
     (let st1 = log_event (Attempt Deterministic) (add_totalSteps st)
      in case executeAction env (step_action step) (resolved_selector cfg step)
                (Some (resolved_value cfg step)) step (world st) of
           (None, w) \<Rightarrow> (None, add_deterministicSuccess (st1\<lparr> world := w \<rparr>))
         | (Some msg, w) \<Rightarrow>
             (case learned_tier env ctx step (resolved_value cfg step) (st1\<lparr> world := w \<rparr>) of
                (True, st2) \<Rightarrow> (None, st2)
              | (False, st2) \<Rightarrow>
                  (case ai_tier env cfg ctx step st2 of
                     (True, st3) \<Rightarrow> (None, st3)
                   | (False, st3) \<Rightarrow>
                       (Some (''All execution methods failed for step: '' @ step_action step),
                        st3))))"
  using assms by (simp add: executeStepHybrid_def Let_def)



lemma executeStepHybrid_navigate:
  assumes "step_action step = ''navigate''"
  shows "executeStepHybrid env cfg ctx step n fp st =
     (let u = or_else (step_url step) (or_else (step_target step) []);
          fullUrl = (if u \<noteq> [] \<and> startsWith u ''/'' then cfg_url cfg @ u
                     else if u = [] then cfg_url cfg
                     else u)
      in case page_goto env (world st) fullUrl of
           (Some msg, w) \<Rightarrow> (Some msg, (add_totalSteps st)\<lparr> world := w \<rparr>)
         | (None, w) \<Rightarrow> (None, add_deterministicSuccess ((add_totalSteps st)\<lparr> world := w \<rparr>)))"
  unfolding executeStepHybrid_def Let_def using assms by simp

lemma executeStepHybrid_screenshot:
  assumes "step_action step = ''screenshot''"
  shows "executeStepHybrid env cfg ctx step n fp st =
     (let name = or_else (step_filename step)
                   (or_else (Some (resolved_value cfg step))
                      (dots_to_underscores fp @ ''_step'' @ show_nat n @ ''.png''));
          screenshotPath = path_join (path_join (cfg_outputDir cfg) ''screenshots'') name
      in case page_screenshot env (world st) screenshotPath of
           (Some msg, w) \<Rightarrow> (Some msg, (add_totalSteps st)\<lparr> world := w \<rparr>)
         | (None, w) \<Rightarrow>
             (None,
              add_deterministicSuccess
                ((add_totalSteps st)\<lparr> world := w,
                   screenshots := screenshots (add_totalSteps st) @ [screenshotPath] \<rparr>)))"
  unfolding executeStepHybrid_def Let_def using assms by simp

lemma executeStepHybrid_direct:
  assumes "step_action step = ''navigate'' \<or> step_action step = ''screenshot''"
  shows "knowledgeBase (snd (executeStepHybrid env cfg ctx step n fp st)) = knowledgeBase st
       \<and> events (snd (executeStepHybrid env cfg ctx step n fp st)) = events st"
proof (cases "step_action step = ''navigate''")
  case True
  show ?thesis unfolding executeStepHybrid_navigate[OF True] Let_def
    by (simp split: prod.splits option.splits)
next
  case False
  with assms have s: "step_action step = ''screenshot''" by simp
  show ?thesis unfolding executeStepHybrid_screenshot[OF s] Let_def
    by (simp split: prod.splits option.splits)
qed

text \<open>
  C4.  A step whose deterministic attempt succeeds (and a \<open>navigate\<close> or \<open>screenshot\<close>
  step, which runs directly) leaves the knowledge base as it was, all fields, and calls no
  knowledge base function: the only event of the step is the deterministic attempt.
\<close>

theorem deterministic_success_keeps_kb:
  assumes "step_action step = ''navigate'' \<or> step_action step = ''screenshot'' \<or>
           fst (executeAction env (step_action step) (resolved_selector cfg step)
                  (Some (resolved_value cfg step)) step (world st)) = None"
  shows "knowledgeBase (snd (executeStepHybrid env cfg ctx step n fp st)) = knowledgeBase st
       \<and> events (snd (executeStepHybrid env cfg ctx step n fp st)) =
           events st @ (if step_action step = ''navigate'' \<or> step_action step = ''screenshot''
                        then [] else [Attempt Deterministic])"
proof (cases "step_action step = ''navigate'' \<or> step_action step = ''screenshot''")
  case True
  then show ?thesis using executeStepHybrid_direct[OF True, of env cfg ctx n fp st] by simp
next
  case False
  with assms obtain w where
    "executeAction env (step_action step) (resolved_selector cfg step)
       (Some (resolved_value cfg step)) step (world st) = (None, w)"
    by (cases "executeAction env (step_action step) (resolved_selector cfg step)
                 (Some (resolved_value cfg step)) step (world st)") auto
  with False show ?thesis
    by (simp add: executeStepHybrid_tiers Let_def)
qed

lemma executeStepHybrid_kept:
  assumes "keyed_by_id (solutions (knowledgeBase st))"
  shows "kb_kept (knowledgeBase st) (knowledgeBase (snd (executeStepHybrid env cfg ctx step n fp st)))"
proof (cases "step_action step = ''navigate'' \<or> step_action step = ''screenshot''")
  case True
  then show ?thesis
    using executeStepHybrid_direct[OF True, of env cfg ctx n fp st] assms
    by (simp add: kb_kept_refl)
next
  case False
  let ?val = "resolved_value cfg step"
  obtain d w where det: "executeAction env (step_action step) (resolved_selector cfg step)
                     (Some ?val) step (world st) = (d, w)"
    by (cases "executeAction env (step_action step) (resolved_selector cfg step)
                     (Some ?val) step (world st)")
  let ?st1 = "(log_event (Attempt Deterministic) (add_totalSteps st))\<lparr> world := w \<rparr>"
  have k1: "knowledgeBase ?st1 = knowledgeBase st" by simp
  show ?thesis
  proof (cases d)
    case None
    with det False show ?thesis using assms
      by (simp add: executeStepHybrid_tiers Let_def kb_kept_refl)
  next
    case (Some msg)
    obtain b2 st2 where lt: "learned_tier env ctx step ?val ?st1 = (b2, st2)"
      by (cases "learned_tier env ctx step ?val ?st1")
    have kept2: "kb_kept (knowledgeBase st) (knowledgeBase st2)"
      using learned_tier_kept[of ?st1 env ctx step ?val] assms lt by (simp only: k1 snd_conv)
    obtain b3 st3 where at: "ai_tier env cfg ctx step st2 = (b3, st3)"
      by (cases "ai_tier env cfg ctx step st2")
    have kept3: "kb_kept (knowledgeBase st2) (knowledgeBase st3)"
      using ai_tier_kept[OF kb_kept_keyed[OF kept2], of env cfg ctx step] at by simp
    have "snd (executeStepHybrid env cfg ctx step n fp st) = (if b2 then st2 else st3)"
      using det Some False lt at by (cases b3) (simp_all add: executeStepHybrid_tiers Let_def)
    then show ?thesis using kept2 kb_kept_trans[OF kept2 kept3] by simp
  qed
qed

lemma run_steps_kept:
  "keyed_by_id (solutions (knowledgeBase st)) \<Longrightarrow>
   kb_kept (knowledgeBase st) (knowledgeBase (snd (run_steps env cfg ctx fp i steps st)))"
proof (induction steps arbitrary: i st)
  case Nil
  then show ?case by (simp add: kb_kept_refl)
next
  case (Cons step rest)
  obtain r st' where ex: "executeStepHybrid env cfg ctx step (i + 1) fp st = (r, st')"
    by (cases "executeStepHybrid env cfg ctx step (i + 1) fp st")
  have kept: "kb_kept (knowledgeBase st) (knowledgeBase st')"
    using executeStepHybrid_kept[OF Cons.prems, of env cfg ctx step "i + 1" fp] ex by simp
  show ?case
  proof (cases r)
    case None
    with ex show ?thesis
      using kb_kept_trans[OF kept Cons.IH[OF kb_kept_keyed[OF kept], of "i + 1"]] by simp
  next
    case (Some msg)
    with ex kept show ?thesis by simp
  qed
qed

lemma executeFlow_body_kept:
  assumes "keyed_by_id (solutions (knowledgeBase st))"
  shows "kb_kept (knowledgeBase st) (knowledgeBase (snd (executeFlow_body env cfg flowsData fp st)))"
proof -
  have same: "kb_kept (knowledgeBase st) (knowledgeBase (st\<lparr> world := w \<rparr>))" for w
    using assms by (simp add: kb_kept_refl)
  have run: "kb_kept (knowledgeBase st)
               (knowledgeBase (snd (run_steps env cfg c fp i steps (st\<lparr> world := w \<rparr>))))" for c i steps w
    using run_steps_kept[of "st\<lparr> world := w \<rparr>" env cfg c fp i steps] assms by simp
  have run0: "kb_kept (knowledgeBase st) (knowledgeBase (snd (run_steps env cfg c fp i steps st)))"
    for c i steps
    using run_steps_kept[OF assms] .
  show ?thesis
  proof (cases "flowsData fp")
    case None
    then show ?thesis using assms by (simp add: executeFlow_body_def kb_kept_refl)
  next
    case (Some fl)
    show ?thesis
    proof (cases "or_else (flow_prompt fl) [] \<noteq> [] \<and> flow_steps fl = None")
      case True
      show ?thesis
      proof (cases "cfg_aiClient cfg")
        case False
        with Some True show ?thesis using assms
          by (simp add: executeFlow_body_def kb_kept_refl)
      next
        case ai: True
        obtain g w where gen: "generator_generateSteps env (world st) (or_else (flow_prompt fl) []) = (g, w)"
          by (cases "generator_generateSteps env (world st) (or_else (flow_prompt fl) [])")
        show ?thesis
        proof (cases g)
          case (Inl msg)
          with Some True ai gen show ?thesis using same[of w]
            by (simp add: executeFlow_body_def)
        next
          case (Inr steps)
          with Some True ai gen show ?thesis using same[of w] run[of _ 0 steps w]
            by (simp add: executeFlow_body_def)
        qed
      qed
    next
      case False
      show ?thesis
      proof (cases "flow_steps fl")
        case None
        with Some False show ?thesis using assms
          by (simp add: executeFlow_body_def kb_kept_refl)
      next
        case steps: (Some steps)
        with Some False show ?thesis using assms run0[of _ 0 steps]
          by (simp add: executeFlow_body_def kb_kept_refl)
      qed
    qed
  qed
qed

lemma executeFlow_kept:
  assumes "keyed_by_id (solutions (knowledgeBase st))"
  shows "kb_kept (knowledgeBase st) (knowledgeBase (snd (executeFlow env cfg flowsData fp st)))"
proof -
  have "kb_kept (knowledgeBase (st\<lparr> screenshots := [] \<rparr>))
          (knowledgeBase (snd (executeFlow_body env cfg flowsData fp (st\<lparr> screenshots := [] \<rparr>))))"
    using assms by (intro executeFlow_body_kept) simp
  then show ?thesis
    by (auto simp: executeFlow_def Let_def split: option.splits prod.splits)
qed

lemma keyed_by_id_map_from_list: "keyed_by_id (map_from_list sol_id xs)"
proof -
  have "keyed_by_id acc \<Longrightarrow> keyed_by_id (foldl (\<lambda>m x. AList.update (sol_id x) x m) acc xs)" for acc
    by (induction xs arbitrary: acc) (simp_all add: keyed_by_id_update)
  from this[of "[]"] show ?thesis by (simp add: map_from_list_def keyed_by_id_def)
qed

lemma keyed_by_id_Nil: "keyed_by_id []"
  by (simp add: keyed_by_id_def)

lemma keyed_by_id_load: "keyed_by_id (solutions (loadKnowledgeBase b fs))"
  by (simp add: loadKnowledgeBase_def keyed_by_id_map_from_list keyed_by_id_Nil
           split: option.splits file_content.splits)

text \<open>
  C10.  In a knowledge base keyed by id (every loaded one is, and the resolver keeps it
  so) a solution returned by \<open>findLearnedSolution\<close> has a confidence above \<open>0.75\<close>;
  \<open>recordFailure\<close> on it lowers the confidence by \<open>0.1\<close>, which stays above \<open>0.65\<close>,
  and keeps the entry.  So a step of the resolver, and a whole flow, never removes a key
  from the knowledge base.
\<close>

theorem selected_solution_never_deleted:
  assumes "keyed_by_id (solutions (knowledgeBase st))"
  shows "(\<forall>s. findLearnedSolution (md5_hex env) step ctx (knowledgeBase st) = Some s \<longrightarrow>
            0.75 < confidence s \<and> 0.65 < confidence s - 0.1 \<and>
            map_of (solutions (recordFailure (sol_id s) (knowledgeBase st))) (sol_id s) =
              Some (s\<lparr> failureCount := failureCount s + 1, confidence := confidence s - 0.1 \<rparr>))
       \<and> fst ` set (solutions (knowledgeBase st))
            \<subseteq> fst ` set (solutions (knowledgeBase (snd (executeStepHybrid env cfg ctx step n fp st))))
       \<and> fst ` set (solutions (knowledgeBase st))
            \<subseteq> fst ` set (solutions (knowledgeBase (snd (executeFlow env cfg flowsData fp st))))"
proof -
  have sel: "0.75 < confidence s \<and> 0.65 < confidence s - 0.1 \<and>
            map_of (solutions (recordFailure (sol_id s) (knowledgeBase st))) (sol_id s) =
              Some (s\<lparr> failureCount := failureCount s + 1, confidence := confidence s - 0.1 \<rparr>)"
    if f: "findLearnedSolution (md5_hex env) step ctx (knowledgeBase st) = Some s" for s
  proof -
    from findLearnedSolution_selected[OF f] have c: "0.75 < confidence s" by simp
    then have "0.65 < confidence s - 0.1" by simp
    with c show ?thesis
      unfolding recordFailure_selected[OF assms f] by (simp add: update_conv')
  qed
  show ?thesis
    using sel executeStepHybrid_kept[OF assms, of env cfg ctx step n fp]
      executeFlow_kept[OF assms, of env cfg flowsData fp]
    unfolding kb_kept_def by blast
qed

section \<open>The sample run, and a flow whose only step fails\<close>

lemma ex_click_resolved:
  "resolved_selector (ex_config ai) ex_click = ''#missing''"
  "resolved_value (ex_config ai) ex_click = []"
  by (simp_all add: resolved_selector_def resolved_value_def ex_click_def or_else_def
        replaceParams_def dollar_pass_def brace_pass_def convertSelector_def match_dollar_def
        match_braced_def
        match_contains_def startsWith_def)

lemma ex_login_click_resolved:
  "resolved_selector (ex_config ai) ex_login_click = ex_login_button"
  "resolved_value (ex_config ai) ex_login_click = []"
  by (simp_all add: resolved_selector_def resolved_value_def ex_login_click_def or_else_def
        replaceParams_def dollar_pass_def brace_pass_def convertSelector_def match_dollar_def
        match_braced_def
        match_contains_def startsWith_def is_quote_def has_text_def ex_login_button_def)

lemma ex_perform:
  "executeAction (ex_driver m) ''click'' sel val step w =
     (if sel = m then None else Some ''Timeout 10000ms exceeded'', w + 1)"
  by (simp add: executeAction_def supported_actions_def ex_driver_def)

lemma ex_click_action [simp]: "step_action ex_click = ''click''"
  and ex_login_click_action [simp]: "step_action ex_login_click = ''click''"
  by (simp_all add: ex_click_def ex_login_click_def)


lemma ex_find_kb:
  "findLearnedSolution ex_hash ex_click ex_context (ex_kb c) =
     (if c > 0.75 then Some (ex_solution c) else None)"
  by (simp add: findLearnedSolution_def generateKey_def similar_solution_def ex_hash_def
        ex_click_def ex_context_def ex_kb_def ex_empty_kb_def ex_solution_def or_else_def)


lemma ex_state_sel [simp]:
  "world (ex_state kb) = 0" "knowledgeBase (ex_state kb) = kb" "events (ex_state kb) = []"
  "screenshots (ex_state kb) = []"
  by (simp_all add: ex_state_def)

lemma ex_driver_md5 [simp]: "md5_hex (ex_driver m) = ex_hash"
  by (simp add: ex_driver_def)

lemma ex_config_sel [simp]:
  "cfg_aiClient (ex_config ai) = ai" "cfg_mode (ex_config ai) = ''hybrid''"
  by (simp_all add: ex_config_def)


theorem deterministic_success_keeps_kb_witness:
  "fst (executeAction (ex_driver ex_login_button) (step_action ex_login_click)
          (resolved_selector (ex_config True) ex_login_click)
          (Some (resolved_value (ex_config True) ex_login_click)) ex_login_click
          (world (ex_state (ex_kb 0.9)))) = None
   \<and> knowledgeBase (snd (executeStepHybrid (ex_driver ex_login_button) (ex_config True)
         ex_context ex_login_click 1 ''authentication.login'' (ex_state (ex_kb 0.9)))) = ex_kb 0.9
   \<and> events (snd (executeStepHybrid (ex_driver ex_login_button) (ex_config True)
         ex_context ex_login_click 1 ''authentication.login'' (ex_state (ex_kb 0.9))))
       = [Attempt Deterministic]"
proof -
  have det: "fst (executeAction (ex_driver ex_login_button) (step_action ex_login_click)
          (resolved_selector (ex_config True) ex_login_click)
          (Some (resolved_value (ex_config True) ex_login_click)) ex_login_click
          (world (ex_state (ex_kb 0.9)))) = None"
    by (simp add: ex_login_click_resolved ex_perform)
  then have "step_action ex_login_click = ''navigate'' \<or> step_action ex_login_click = ''screenshot'' \<or>
     fst (executeAction (ex_driver ex_login_button) (step_action ex_login_click)
          (resolved_selector (ex_config True) ex_login_click)
          (Some (resolved_value (ex_config True) ex_login_click)) ex_login_click
          (world (ex_state (ex_kb 0.9)))) = None"
    by blast
  from deterministic_success_keeps_kb[OF this, of ex_context 1 "''authentication.login''"] det
  show ?thesis by simp
qed


lemma ex_kb_keyed: "keyed_by_id (solutions (ex_kb c))"
  by (simp add: keyed_by_id_def ex_kb_def ex_empty_kb_def ex_solution_def)

theorem selected_solution_never_deleted_witness:
  "keyed_by_id (solutions (knowledgeBase (ex_state (ex_kb 0.78))))
   \<and> findLearnedSolution (md5_hex (ex_driver ''#never'')) ex_click ex_context
         (knowledgeBase (ex_state (ex_kb 0.78))) = Some (ex_solution 0.78)
   \<and> map_of (solutions (recordFailure ''click-5f4dcc3b'' (ex_kb 0.78))) ''click-5f4dcc3b''
       = Some ((ex_solution 0.68)\<lparr> failureCount := 1 \<rparr>)
   \<and> ''click-5f4dcc3b'' \<in> fst ` set (solutions (knowledgeBase (snd
         (executeStepHybrid (ex_driver ''#never'') (ex_config False) ex_context ex_click 1
            ''authentication.login'' (ex_state (ex_kb 0.78))))))"
proof -
  have keyed: "keyed_by_id (solutions (knowledgeBase (ex_state (ex_kb 0.78))))"
    by (simp add: ex_kb_keyed)
  have found: "findLearnedSolution (md5_hex (ex_driver ''#never'')) ex_click ex_context
         (knowledgeBase (ex_state (ex_kb 0.78))) = Some (ex_solution 0.78)"
    by (simp add: ex_find_kb)
  have key: "''click-5f4dcc3b'' \<in> fst ` set (solutions (knowledgeBase (ex_state (ex_kb 0.78))))"
    by (simp add: ex_kb_def)
  note inst = selected_solution_never_deleted[OF keyed,
      where env = "ex_driver ''#never''" and step = ex_click and ctx = ex_context
        and cfg = "ex_config False" and n = 1 and fp = "''authentication.login''"
        and flowsData = ex_flows]
  from inst found have
    "map_of (solutions (recordFailure (sol_id (ex_solution 0.78)) (knowledgeBase (ex_state (ex_kb 0.78)))))
       (sol_id (ex_solution 0.78)) =
     Some ((ex_solution 0.78)\<lparr> failureCount := failureCount (ex_solution 0.78) + 1,
             confidence := confidence (ex_solution 0.78) - 0.1 \<rparr>)"
    by blast
  then have rf: "map_of (solutions (recordFailure ''click-5f4dcc3b'' (ex_kb 0.78))) ''click-5f4dcc3b''
       = Some ((ex_solution 0.68)\<lparr> failureCount := 1 \<rparr>)"
    by (simp add: ex_solution_def)
  from inst key have "''click-5f4dcc3b'' \<in> fst ` set (solutions (knowledgeBase (snd
         (executeStepHybrid (ex_driver ''#never'') (ex_config False) ex_context ex_click 1
            ''authentication.login'' (ex_state (ex_kb 0.78))))))"
    by blast
  with keyed found rf show ?thesis by blast
qed

lemma run_state_sel_simps [simp]:
  "knowledgeBase (st\<lparr> screenshots := x \<rparr>) = knowledgeBase st"
  "events (st\<lparr> screenshots := x \<rparr>) = events st"
  "world (st\<lparr> screenshots := x \<rparr>) = world st"
  "stats (st\<lparr> screenshots := x \<rparr>) = stats st"
  by simp_all

lemma failing_click_step:
  assumes click: "step_action step = ''click''"
    and miss: "fst (page_perform env (world st) ''click'' (resolved_selector cfg step)
                      (Some (resolved_value cfg step)) step) = Some msg"
    and empty: "solutions (knowledgeBase st) = []"
    and noai: "\<not> cfg_aiClient cfg"
  shows "\<exists>w. executeStepHybrid env cfg ctx step n fp st =
           (Some ''All execution methods failed for step: click'',
            (log_event KnowledgeBaseRead (log_event (Attempt Deterministic) (add_totalSteps st)))
              \<lparr> world := w \<rparr>)"
proof -
  obtain w where perf: "page_perform env (world st) ''click'' (resolved_selector cfg step)
                      (Some (resolved_value cfg step)) step = (Some msg, w)"
    using miss by (cases "page_perform env (world st) ''click'' (resolved_selector cfg step)
                      (Some (resolved_value cfg step)) step") auto
  have det: "executeAction env (step_action step) (resolved_selector cfg step)
               (Some (resolved_value cfg step)) step (world st) = (Some msg, w)"
    using click perf by (simp add: executeAction_def supported_actions_def)
  have nav: "step_action step \<noteq> ''navigate''" and shot: "step_action step \<noteq> ''screenshot''"
    using click by simp_all
  let ?st1 = "(log_event (Attempt Deterministic) (add_totalSteps st))\<lparr> world := w \<rparr>"
  have none: "findLearnedSolution (md5_hex env) step ctx (knowledgeBase ?st1) = None"
    using empty by (simp add: findLearnedSolution_def)
  have lt: "learned_tier env ctx step (resolved_value cfg step) ?st1 =
              (False, log_event KnowledgeBaseRead ?st1)"
    by (rule learned_tier_none[OF none])
  have at: "ai_tier env cfg ctx step (log_event KnowledgeBaseRead ?st1) =
              (False, log_event KnowledgeBaseRead ?st1)"
    using noai by (simp add: ai_tier_def)
  have "executeStepHybrid env cfg ctx step n fp st =
          (Some ''All execution methods failed for step: click'', log_event KnowledgeBaseRead ?st1)"
    using det lt at click by (simp add: executeStepHybrid_tiers[OF nav shot] Let_def)
  then show ?thesis by (intro exI[of _ w]) (simp add: log_event_def)
qed

lemma executeFlow_thrown:
  assumes "executeFlow_body env cfg flowsData fp (st\<lparr> screenshots := [] \<rparr>) = (Some msg, st1)"
  shows "res_status (fst (executeFlow env cfg flowsData fp st)) = Failed
       \<and> res_error (fst (executeFlow env cfg flowsData fp st)) = Some msg"
  unfolding executeFlow_def assms
  by (simp add: Let_def split: prod.splits option.splits)

text \<open>
  C5.  A flow of one click step whose selector the browser does not find, run on an
  empty knowledge base without an AI client: the deterministic tier fails, the learned
  tier looks the step up and finds nothing, the AI tier is skipped.  The step throws an
  error with the message \<open>All execution methods failed for step: click\<close>; the flow's
  status is \<open>failed\<close> with that message, one step was counted and none succeeded, and the
  knowledge base is as before.
\<close>

theorem all_tiers_fail:
  assumes flow: "flowsData fp = Some fl" and steps: "flow_steps fl = Some [step]"
    and click: "step_action step = ''click''"
    and miss: "fst (page_perform env (world st) ''click'' (resolved_selector cfg step)
                      (Some (resolved_value cfg step)) step) = Some msg"
    and empty: "solutions (knowledgeBase st) = []"
    and noai: "\<not> cfg_aiClient cfg"
  shows "res_status (fst (executeFlow env cfg flowsData fp st)) = Failed
     \<and> res_error (fst (executeFlow env cfg flowsData fp st))
         = Some ''All execution methods failed for step: click''
     \<and> events (snd (executeFlow env cfg flowsData fp st))
         = events st @ [Attempt Deterministic, KnowledgeBaseRead]
     \<and> totalSteps (stats (snd (executeFlow env cfg flowsData fp st))) = totalSteps (stats st) + 1
     \<and> deterministicSuccess (stats (snd (executeFlow env cfg flowsData fp st)))
         = deterministicSuccess (stats st)
     \<and> learnedSuccess (stats (snd (executeFlow env cfg flowsData fp st))) = learnedSuccess (stats st)
     \<and> aiSuccess (stats (snd (executeFlow env cfg flowsData fp st))) = aiSuccess (stats st)
     \<and> knowledgeBase (snd (executeFlow env cfg flowsData fp st)) = knowledgeBase st"
proof -
  let ?st0 = "st\<lparr> screenshots := [] \<rparr>"
  let ?ctx = "\<lparr> ctx_flowPath = fp, ctx_url = cfg_url cfg, ctx_pageType = classifyPage (cfg_url cfg) \<rparr>"
  from failing_click_step[of step env ?st0 cfg msg ?ctx "0 + 1" fp] click miss empty noai
  obtain w where step1: "executeStepHybrid env cfg ?ctx step (0 + 1) fp ?st0 =
           (Some ''All execution methods failed for step: click'',
            (log_event KnowledgeBaseRead (log_event (Attempt Deterministic) (add_totalSteps ?st0)))
              \<lparr> world := w \<rparr>)"
    by auto
  let ?st1 = "(log_event KnowledgeBaseRead (log_event (Attempt Deterministic) (add_totalSteps ?st0)))
              \<lparr> world := w \<rparr>"
  have body: "executeFlow_body env cfg flowsData fp ?st0 =
                (Some ''All execution methods failed for step: click'', ?st1)"
    using flow steps step1 by (simp add: executeFlow_body_def Let_def)
  show ?thesis
    unfolding executeFlow_def body
    by (simp add: Let_def log_event_def add_totalSteps_def split: prod.splits option.splits)
qed

theorem all_tiers_fail_counterexample:
  "res_error (fst (executeFlow (ex_driver ex_login_button) (ex_config False) ex_flows
      ''authentication.login'' (ex_state ex_empty_kb)))
     = Some ''All execution methods failed for step: click''
   \<and> res_error (fst (executeFlow (ex_driver ex_login_button) (ex_config False) ex_flows
      ''authentication.login'' (ex_state ex_empty_kb)))
     \<noteq> Some ''all strategies failed''"
proof -
  let ?st0 = "(ex_state ex_empty_kb)\<lparr> screenshots := [] \<rparr>"
  let ?ctx = "\<lparr> ctx_flowPath = ''authentication.login'', ctx_url = cfg_url (ex_config False),
          ctx_pageType = classifyPage (cfg_url (ex_config False)) \<rparr>"
  have miss: "fst (page_perform (ex_driver ex_login_button) (world ?st0) ''click''
                (resolved_selector (ex_config False) ex_click)
                (Some (resolved_value (ex_config False) ex_click)) ex_click)
              = Some ''Timeout 10000ms exceeded''"
    by (simp add: ex_click_resolved ex_driver_def ex_login_button_def)
  have empty: "solutions (knowledgeBase ?st0) = []"
    by (simp add: ex_empty_kb_def)
  have noai: "\<not> cfg_aiClient (ex_config False)" by simp
  from failing_click_step[OF ex_click_action miss empty noai, of ?ctx "0 + 1" "''authentication.login''"]
  obtain st1 where "executeStepHybrid (ex_driver ex_login_button) (ex_config False) ?ctx ex_click
               (0 + 1) ''authentication.login'' ?st0
          = (Some ''All execution methods failed for step: click'', st1)"
    by blast
  then have body: "executeFlow_body (ex_driver ex_login_button) (ex_config False) ex_flows
                ''authentication.login'' ?st0
              = (Some ''All execution methods failed for step: click'', st1)"
    by (simp add: executeFlow_body_def Let_def ex_flows_def)
  show ?thesis using executeFlow_thrown[OF body] by simp
qed

theorem all_tiers_fail_witness:
  "ex_flows ''authentication.login''
     = Some \<lparr> flow_name = Some ''Login'', flow_prompt = None, flow_steps = Some [ex_click] \<rparr>
   \<and> step_action ex_click = ''click''
   \<and> solutions (knowledgeBase (ex_state ex_empty_kb)) = []
   \<and> \<not> cfg_aiClient (ex_config False)
   \<and> res_status (fst (executeFlow (ex_driver ex_login_button) (ex_config False) ex_flows
        ''authentication.login'' (ex_state ex_empty_kb))) = Failed
   \<and> events (snd (executeFlow (ex_driver ex_login_button) (ex_config False) ex_flows
        ''authentication.login'' (ex_state ex_empty_kb)))
       = [Attempt Deterministic, KnowledgeBaseRead]
   \<and> totalSteps (stats (snd (executeFlow (ex_driver ex_login_button) (ex_config False) ex_flows
        ''authentication.login'' (ex_state ex_empty_kb)))) = 1"
proof -
  have flow: "ex_flows ''authentication.login''
     = Some \<lparr> flow_name = Some ''Login'', flow_prompt = None, flow_steps = Some [ex_click] \<rparr>"
    by (simp add: ex_flows_def)
  have steps: "flow_steps \<lparr> flow_name = Some ''Login'', flow_prompt = None,
                  flow_steps = Some [ex_click] \<rparr> = Some [ex_click]"
    by simp
  have miss: "fst (page_perform (ex_driver ex_login_button) (world (ex_state ex_empty_kb)) ''click''
                (resolved_selector (ex_config False) ex_click)
                (Some (resolved_value (ex_config False) ex_click)) ex_click)
              = Some ''Timeout 10000ms exceeded''"
    by (simp add: ex_click_resolved ex_driver_def ex_login_button_def)
  have empty: "solutions (knowledgeBase (ex_state ex_empty_kb)) = []"
    by (simp add: ex_empty_kb_def)
  have noai: "\<not> cfg_aiClient (ex_config False)" by simp
  note inst = all_tiers_fail[where flowsData = ex_flows and fp = "''authentication.login''"
      and step = ex_click and env = "ex_driver ex_login_button" and cfg = "ex_config False"
      and st = "ex_state ex_empty_kb", OF flow steps ex_click_action miss empty noai]
  from inst flow empty noai
  show ?thesis by (simp add: ex_state_def)
qed

section \<open>Selector normalisation, persistence and parameter validation\<close>

text \<open>
  C7.  \<open>convertSelector\<close> turns \<open>button:contains('Login')\<close> into
  \<open>button:has-text("Login")\<close>.  On the bare \<open>:contains('x')\<close> it returns
  \<open>:has-text("x")\<close> and not \<open>text=x\<close>: the replacement of every \<open>:contains\<close> runs first,
  so the test for a leading \<open>:contains(\<close> that guards the \<open>text=\<close> form never holds.
  The \<open>convertSelector\<close> of the \<open>execute_flow\<close> tool returns the same two results.
\<close>

theorem convertSelector_bare_contains:
  \<open>convertSelector ''button:contains('Login')'' = ''button:has-text("Login")''
   \<and> convertSelector '':contains('x')'' = '':has-text("x")''
   \<and> convertSelector '':contains('x')'' \<noteq> ''text=x''
   \<and> convertSelector_tool ''button:contains('Login')'' = ''button:has-text("Login")''
   \<and> convertSelector_tool '':contains('x')'' = '':has-text("x")''\<close>
  by (simp add: convertSelector_def convertSelector_tool_def has_text_def match_contains_def
        match_literal_def startsWith_def is_quote_def)

lemma map_from_list_ids:
  "distinct (map sol_id xs) \<Longrightarrow> map snd (map_from_list sol_id xs) = xs"
  by (simp add: map_from_list_distinct comp_def)

lemma map_from_list_pattern_ids:
  "distinct (map pattern_id xs) \<Longrightarrow> map snd (map_from_list pattern_id xs) = xs"
  by (simp add: map_from_list_distinct comp_def)

text \<open>
  C9.  Loading a solutions file whose ids are distinct and saving the result at once
  writes the same solutions in the same order, with \<open>version\<close> set to \<open>1.0\<close> and
  \<open>lastUpdated\<close> set to the time of the save; the file written equals the file read
  exactly when it already carried that version and that time.
\<close>

theorem load_save_round_trip:
  assumes "fs (path_join b ''solutions.json'') = Some (SolutionsJson d)"
    and "distinct (map sol_id (sf_solutions d))"
  shows "saveKnowledgeBase b (loadKnowledgeBase b fs) now1 now2 fs (path_join b ''solutions.json'')
           = Some (SolutionsJson (d\<lparr> sf_version := ''1.0'', sf_lastUpdated := now1 \<rparr>))
       \<and> (saveKnowledgeBase b (loadKnowledgeBase b fs) now1 now2 fs (path_join b ''solutions.json'')
            = fs (path_join b ''solutions.json'')
          \<longleftrightarrow> sf_version d = ''1.0'' \<and> sf_lastUpdated d = now1)"
proof -
  have "saveKnowledgeBase b (loadKnowledgeBase b fs) now1 now2 fs (path_join b ''solutions.json'')
           = Some (SolutionsJson \<lparr> sf_version = ''1.0'', sf_lastUpdated = now1,
                                   sf_solutions = sf_solutions d \<rparr>)"
    using assms
    by (simp add: saveKnowledgeBase_def loadKnowledgeBase_def Let_def path_join_inj
          map_from_list_ids)
  moreover have "\<lparr> sf_version = ''1.0'', sf_lastUpdated = now1, sf_solutions = sf_solutions d \<rparr>
                 = d\<lparr> sf_version := ''1.0'', sf_lastUpdated := now1 \<rparr>"
    by simp
  moreover have "d\<lparr> sf_version := ''1.0'', sf_lastUpdated := now1 \<rparr> = d
                 \<longleftrightarrow> sf_version d = ''1.0'' \<and> sf_lastUpdated d = now1"
    by (cases d) auto
  ultimately show ?thesis using assms(1) by simp
qed


theorem load_save_round_trip_counterexample:
  "saveKnowledgeBase ''.opencode/qa-knowledge'' (loadKnowledgeBase ''.opencode/qa-knowledge'' ex_fs)
      ''2024-01-02T00:00:00.000Z'' ''2024-01-02T00:00:00.000Z'' ex_fs
      ''.opencode/qa-knowledge/solutions.json''
   \<noteq> ex_fs ''.opencode/qa-knowledge/solutions.json''"
  by (simp add: saveKnowledgeBase_def loadKnowledgeBase_def path_join_def ex_fs_def ex_file_def
        map_from_list_def)

theorem load_save_round_trip_witness:
  "ex_fs (path_join ''.opencode/qa-knowledge'' ''solutions.json'') = Some (SolutionsJson ex_file)
   \<and> distinct (map sol_id (sf_solutions ex_file))
   \<and> saveKnowledgeBase ''.opencode/qa-knowledge'' (loadKnowledgeBase ''.opencode/qa-knowledge'' ex_fs)
        ''2024-01-02T00:00:00.000Z'' ''2024-01-02T00:00:00.000Z'' ex_fs
        (path_join ''.opencode/qa-knowledge'' ''solutions.json'')
     = Some (SolutionsJson (ex_file\<lparr> sf_lastUpdated := ''2024-01-02T00:00:00.000Z'' \<rparr>))"
proof -
  have f: "ex_fs (path_join ''.opencode/qa-knowledge'' ''solutions.json'') = Some (SolutionsJson ex_file)"
    by (simp add: ex_fs_def path_join_def)
  have ids: "distinct (map sol_id (sf_solutions ex_file))"
    by (simp add: ex_file_def)
  from load_save_round_trip[where fs = ex_fs and b = "''.opencode/qa-knowledge''" and d = ex_file
      and ?now1.0 = "''2024-01-02T00:00:00.000Z''" and ?now2.0 = "''2024-01-02T00:00:00.000Z''",
      OF f ids] f ids
  show ?thesis by (simp add: ex_file_def)
qed

section \<open>Parameter validation of the tool\<close>

text \<open>The defaults loop fills exactly the missing names that have a truthy default.\<close>

lemma apply_defaults_eq:
  "apply_defaults defaults flowParams missingParams =
     (\<lambda>k. if k \<in> set missingParams \<and> (\<exists>v. js_get defaults k = Some v \<and> truthy v)
           then map_option to_text (js_get defaults k) else flowParams k)"
proof (induction missingParams arbitrary: flowParams)
  case Nil
  then show ?case by (simp add: apply_defaults_def)
next
  case (Cons m ms)
  have "apply_defaults defaults flowParams (m # ms) =
          apply_defaults defaults
            (case js_get defaults m of None \<Rightarrow> flowParams
             | Some v \<Rightarrow> if truthy v then flowParams(m \<mapsto> to_text v) else flowParams) ms"
    by (simp add: apply_defaults_def)
  also have "\<dots> = (\<lambda>k. if k \<in> set (m # ms) \<and> (\<exists>v. js_get defaults k = Some v \<and> truthy v)
                        then map_option to_text (js_get defaults k) else flowParams k)"
    unfolding Cons.IH by (auto simp: fun_eq_iff split: option.splits)
  finally show ?case .
qed

lemma js_in_iff: "js_in k obj \<longleftrightarrow> obj k \<noteq> None \<or> k \<in> set object_prototype_keys"
  by (simp add: js_in_def js_get_def split: option.splits)

lemma js_get_own:
  "k \<notin> set object_prototype_keys \<Longrightarrow> js_get obj k = map_option Str (obj k)"
  by (simp add: js_get_def split: option.splits)

lemma truthy_default:
  assumes "\<not> js_in k supplied"
  shows "(\<exists>v. js_get defaults k = Some v \<and> truthy v) \<longleftrightarrow> (\<exists>v. defaults k = Some v \<and> v \<noteq> [])"
    and "(\<exists>v. defaults k = Some v \<and> v \<noteq> []) \<Longrightarrow> map_option to_text (js_get defaults k) = defaults k"
proof -
  from assms have k: "k \<notin> set object_prototype_keys" by (simp add: js_in_iff)
  show "(\<exists>v. js_get defaults k = Some v \<and> truthy v) \<longleftrightarrow> (\<exists>v. defaults k = Some v \<and> v \<noteq> [])"
    by (cases "defaults k") (simp_all add: js_get_own[OF k])
  show "map_option to_text (js_get defaults k) = defaults k"
    by (cases "defaults k") (simp_all add: js_get_own[OF k])
qed

text \<open>
  C6.  The required parameters are validated before any step runs.  A required name
  counts as present when it is a property of the parameter object: supplied, or one of
  the names every object inherits (such as \<open>toString\<close> or \<open>constructor\<close>).  A
  required name that is not present takes its default (test data overlaid by test
  credentials) when that default is a non-empty string.  If a required name is then still
  not present, that is it was no property of the supplied object and has no non-empty
  default, the tool returns the list of these names and leaves the browser as it was: no
  step runs.  Otherwise every required name is a property of the completed parameters
  and the steps run with them.
\<close>

theorem required_parameters:
  assumes flow: "qa_flows qa (tp_flowPath params) = Some fl" and steps: "fd_steps fl = Some steps"
    and supplied_def: "supplied = map_or_empty (tp_params params)"
    and required_def: "required = (case fd_requiredParams fl of None \<Rightarrow> [] | Some ps \<Rightarrow> ps)"
    and defaults_def:
      "defaults = map_or_empty (qa_testData qa) ++ map_or_empty (qa_testCredentials qa)"
    and unresolved_def:
      "unresolved = filter (\<lambda>k. \<not> js_in k supplied \<and> \<not> (\<exists>v. defaults k = Some v \<and> v \<noteq> []))
                      required"
    and flowParams_def:
      "flowParams = (\<lambda>k. if k \<in> set required \<and> \<not> js_in k supplied \<and>
                             (\<exists>v. defaults k = Some v \<and> v \<noteq> [])
                          then defaults k else supplied k)"
  shows
    "(\<forall>k. js_in k supplied \<longleftrightarrow> supplied k \<noteq> None \<or> k \<in> set object_prototype_keys)
     \<and> (if unresolved \<noteq> [] then execute env (Some qa) params w = (MissingParameters unresolved, w)
        else (\<forall>k \<in> set required. js_in k flowParams) \<and>
             execute env (Some qa) params w =
               (let r = run_tool_steps env params flowParams
                          (or_else (tp_baseUrl params) (or_else (qa_baseUrl qa) [])) steps
                          \<lparr> tr_world = w, tr_failedStep = None, tr_started = [],
                            tr_screenshots = 0 \<rparr>
                in (Completed r, tr_world r)))"
proof -
  define missingParams where "missingParams = filter (\<lambda>p. \<not> js_in p supplied) required"
  define filled where
    "filled = (if missingParams \<noteq> [] then apply_defaults defaults supplied missingParams
               else supplied)"
  have filled: "filled = flowParams"
  proof (cases "missingParams = []")
    case True
    then have "\<forall>k \<in> set required. js_in k supplied"
      by (auto simp: missingParams_def filter_empty_conv)
    with True show ?thesis by (auto simp: filled_def flowParams_def fun_eq_iff)
  next
    case False
    have "apply_defaults defaults supplied missingParams k = flowParams k" for k
    proof (cases "k \<in> set required \<and> \<not> js_in k supplied")
      case True
      then show ?thesis
        using truthy_default[of k supplied defaults]
        by (auto simp: apply_defaults_eq missingParams_def flowParams_def)
    next
      case False
      then show ?thesis
        by (auto simp: apply_defaults_eq missingParams_def flowParams_def)
    qed
    with False show ?thesis by (auto simp: filled_def fun_eq_iff)
  qed
  have in_filled: "js_in k flowParams \<longleftrightarrow> js_in k supplied \<or> (\<exists>v. defaults k = Some v \<and> v \<noteq> [])"
    if "k \<in> set required" for k
    using that by (auto simp: js_in_iff flowParams_def)
  have still: "(if missingParams \<noteq> [] then filter (\<lambda>p. \<not> js_in p filled) required else [])
                 = unresolved"
  proof (cases "missingParams = []")
    case True
    then have "\<forall>k \<in> set required. js_in k supplied"
      by (auto simp: missingParams_def filter_empty_conv)
    with True show ?thesis by (auto simp: unresolved_def filter_empty_conv)
  next
    case False
    have "filter (\<lambda>p. \<not> js_in p flowParams) required = unresolved"
      unfolding unresolved_def
      by (rule filter_cong) (auto simp: in_filled)
    with False show ?thesis by (simp add: filled)
  qed
  have ex: "execute env (Some qa) params w =
      (if unresolved \<noteq> [] then (MissingParameters unresolved, w)
       else (let r = run_tool_steps env params flowParams
                       (or_else (tp_baseUrl params) (or_else (qa_baseUrl qa) [])) steps
                       \<lparr> tr_world = w, tr_failedStep = None, tr_started = [],
                         tr_screenshots = 0 \<rparr>
             in (Completed r, tr_world r)))"
    using flow steps still
    unfolding execute_def Let_def filled[symmetric] filled_def missingParams_def supplied_def
      required_def defaults_def
    by simp
  have all: "\<forall>k \<in> set required. js_in k flowParams" if "unresolved = []"
    using that in_filled unfolding unresolved_def filter_empty_conv by auto
  have "\<forall>k. js_in k supplied \<longleftrightarrow> supplied k \<noteq> None \<or> k \<in> set object_prototype_keys"
    by (simp add: js_in_iff)
  moreover have "if unresolved \<noteq> [] then execute env (Some qa) params w = (MissingParameters unresolved, w)
        else (\<forall>k \<in> set required. js_in k flowParams) \<and>
             execute env (Some qa) params w =
               (let r = run_tool_steps env params flowParams
                          (or_else (tp_baseUrl params) (or_else (qa_baseUrl qa) [])) steps
                          \<lparr> tr_world = w, tr_failedStep = None, tr_started = [],
                            tr_screenshots = 0 \<rparr>
                in (Completed r, tr_world r))"
  proof (cases "unresolved = []")
    case True
    with ex all[OF True] show ?thesis by simp
  next
    case False
    with ex show ?thesis by simp
  qed
  ultimately show ?thesis by blast
qed

lemma ex_typed:
  "substituteParams ''{email}'' p =
     (case js_get p ''email'' of None \<Rightarrow> ''{email}'' | Some v \<Rightarrow> to_text v)"
  by (simp add: substituteParams_def defined_or_match_def match_braced_def is_word_char_def
        braced_def split: option.splits)

theorem required_parameters_counterexample:
  "(map_or_empty (qa_testData (ex_qa [''email''] [])) ++
      map_or_empty (qa_testCredentials (ex_qa [''email''] []))) ''email'' = Some []
   \<and> execute ex_tool_driver (Some (ex_qa [''email''] [])) ex_tool_params []
       = (MissingParameters [''email''], [])
   \<and> map_or_empty (tp_params ex_tool_params) ''toString'' = None
   \<and> (map_or_empty (qa_testData (ex_qa [''toString''] [])) ++
      map_or_empty (qa_testCredentials (ex_qa [''toString''] []))) ''toString'' = None
   \<and> execute ex_tool_driver (Some (ex_qa [''toString''] [])) ex_tool_params []
       = (Completed \<lparr> tr_world = [''{email}''], tr_failedStep = None, tr_started = [1],
                       tr_screenshots = 0 \<rparr>,
          [''{email}''])"
  by (simp add: execute_def ex_qa_def ex_tool_params_def ex_login_flow_def map_or_empty_def
        apply_defaults_def Let_def js_in_def js_get_def object_prototype_keys_def
        tool_step_def ex_tool_driver_def or_else_def ex_typed)

theorem required_parameters_witness:
  "qa_flows (ex_qa [''email''] ''qa@app.test'') (tp_flowPath ex_tool_params)
     = Some (ex_login_flow [''email''])
   \<and> fd_requiredParams (ex_login_flow [''email'']) = Some [''email'']
   \<and> map_or_empty (tp_params ex_tool_params) ''email'' = None
   \<and> execute ex_tool_driver (Some (ex_qa [''email''] ''qa@app.test'')) ex_tool_params []
       = (Completed \<lparr> tr_world = [''qa@app.test''], tr_failedStep = None, tr_started = [1],
                       tr_screenshots = 0 \<rparr>,
          [''qa@app.test''])"
proof -
  let ?qa = "ex_qa [''email''] ''qa@app.test''"
  let ?steps = "[\<lparr> fs_step = 1, fs_action = ''type'', fs_target = Some ''#email'',
                   fs_value = Some ''{email}'', fs_optional = False \<rparr>]"
  have flow: "qa_flows ?qa (tp_flowPath ex_tool_params) = Some (ex_login_flow [''email''])"
    by (simp add: ex_qa_def ex_tool_params_def)
  have steps: "fd_steps (ex_login_flow [''email'']) = Some ?steps"
    by (simp add: ex_login_flow_def)
  have req: "fd_requiredParams (ex_login_flow [''email'']) = Some [''email'']"
    by (simp add: ex_login_flow_def)
  have sup: "map_or_empty (tp_params ex_tool_params) = Map.empty"
    by (simp add: ex_tool_params_def map_or_empty_def)
  have dflt: "map_or_empty (qa_testData ?qa) ++ map_or_empty (qa_testCredentials ?qa)
                = [''email'' \<mapsto> ''qa@app.test'']"
    by (simp add: ex_qa_def map_or_empty_def)
  have nin: "\<not> js_in ''email'' Map.empty"
    by (simp add: js_in_def js_get_def object_prototype_keys_def)
  note inst = required_parameters[OF flow steps refl refl refl refl refl,
      where env = ex_tool_driver and w = "[]"]
  have "execute ex_tool_driver (Some ?qa) ex_tool_params []
       = (Completed \<lparr> tr_world = [''qa@app.test''], tr_failedStep = None, tr_started = [1],
                       tr_screenshots = 0 \<rparr>,
          [''qa@app.test''])"
    using inst unfolding req sup dflt
    by (simp add: nin tool_step_def ex_tool_driver_def ex_tool_params_def or_else_def ex_typed
          js_get_def Let_def)
  with flow req sup show ?thesis by simp
qed

section \<open>Properties of parameter substitution\<close>

lemma is_word_char_plain:
  "is_word_char c \<Longrightarrow> c \<noteq> CHR ''{'' \<and> c \<noteq> CHR ''}'' \<and> c \<noteq> CHR ''$''"
  by (auto simp: is_word_char_def)

lemma match_braced_None: "c \<noteq> CHR ''{'' \<Longrightarrow> match_braced (c # s) = None"
  by (simp add: match_braced_def)

lemma match_dollar_None: "c \<noteq> CHR ''$'' \<Longrightarrow> match_dollar (c # s) = None"
  by (simp add: match_dollar_def)

lemma match_braced_token:
  assumes "word_key k"
  shows "match_braced (braced k @ rest) = Some (k, rest)"
proof -
  have all: "\<forall>c \<in> set k. is_word_char c" and ne: "k \<noteq> []"
    using assms by (auto simp: word_key_def list_all_iff)
  have close: "\<not> is_word_char (CHR ''}'')" by (simp add: is_word_char_def)
  have "takeWhile is_word_char (k @ CHR ''}'' # rest) = k"
    using all close by (simp add: takeWhile_append2)
  moreover have "dropWhile is_word_char (k @ CHR ''}'' # rest) = CHR ''}'' # rest"
    using all close by (simp add: dropWhile_append2)
  ultimately show ?thesis using ne by (simp add: match_braced_def braced_def)
qed

lemma match_dollar_token:
  "word_key k \<Longrightarrow> match_dollar (dollar_braced k @ rest) = Some (k, rest)"
  using match_braced_token[of k rest] by (simp add: match_dollar_def dollar_braced_def braced_def)

lemma replace_all_skip:
  assumes "\<And>c s. c \<in> set pre \<Longrightarrow> m (c # s) = None"
  shows "replace_all m f (pre @ s) = pre @ replace_all m f s"
  using assms by (induction pre) simp_all

lemma replace_all_match:
  assumes "m (c # cs) = Some (g, rest)" and "length rest \<le> length cs"
  shows "replace_all m f (c # cs) = f g @ replace_all m f rest"
  using assms by simp

lemma replace_all_braced_token:
  assumes "word_key k"
  shows "replace_all match_braced f (braced k @ rest) = f k @ replace_all match_braced f rest"
proof -
  have "braced k @ rest = CHR ''{'' # (k @ CHR ''}'' # rest)" by (simp add: braced_def)
  moreover have "match_braced (CHR ''{'' # (k @ CHR ''}'' # rest)) = Some (k, rest)"
    using match_braced_token[OF assms, of rest] by (simp add: braced_def)
  ultimately show ?thesis by (simp add: replace_all_match)
qed

lemma replace_all_dollar_token:
  assumes "word_key k"
  shows "replace_all match_dollar f (dollar_braced k @ rest) = f k @ replace_all match_dollar f rest"
proof -
  have "dollar_braced k @ rest = CHR ''$'' # (CHR ''{'' # k @ CHR ''}'' # rest)"
    by (simp add: dollar_braced_def)
  moreover have "match_dollar (CHR ''$'' # (CHR ''{'' # k @ CHR ''}'' # rest)) = Some (k, rest)"
    using match_dollar_token[OF assms, of rest] by (simp add: dollar_braced_def)
  ultimately show ?thesis by (simp add: replace_all_match)
qed

lemma skip_braced:
  assumes "CHR ''{'' \<notin> set pre"
  shows "replace_all match_braced f (pre @ s) = pre @ replace_all match_braced f s"
  using assms by (intro replace_all_skip match_braced_None) auto

lemma skip_dollar:
  assumes "CHR ''$'' \<notin> set pre"
  shows "replace_all match_dollar f (pre @ s) = pre @ replace_all match_dollar f s"
  using assms by (intro replace_all_skip match_dollar_None) auto

lemma braced_no_dollar: "word_key k \<Longrightarrow> CHR ''$'' \<notin> set (braced k)"
  using is_word_char_plain by (auto simp: braced_def word_key_def list_all_iff)


lemma match_braced_sound:
  assumes "match_braced s = Some (k, rest)"
  shows "s = braced k @ rest \<and> word_key k"
proof (cases s)
  case Nil
  with assms show ?thesis by (simp add: match_braced_def)
next
  case (Cons c r)
  with assms have c: "c = CHR ''{''"
    by (simp add: match_braced_def split: if_splits)
  from assms Cons c have k: "k = takeWhile is_word_char r" and ne: "k \<noteq> []"
    and "dropWhile is_word_char r = CHR ''}'' # rest"
    by (auto simp: match_braced_def Let_def split: list.splits if_splits)
  then have "r = k @ CHR ''}'' # rest"
    using takeWhile_dropWhile_id[of is_word_char r] by simp
  moreover have "list_all is_word_char k"
    unfolding k list_all_iff using set_takeWhileD by fastforce
  ultimately show ?thesis using Cons c ne by (simp add: braced_def word_key_def)
qed

lemma match_braced_iff:
  "match_braced t = Some (k, r) \<longleftrightarrow> word_key k \<and> t = braced k @ r"
  using match_braced_sound[of t k r] match_braced_token[of k r] by auto

lemma match_dollar_iff:
  "match_dollar t = Some (k, r) \<longleftrightarrow> word_key k \<and> t = dollar_braced k @ r"
proof
  assume m: "match_dollar t = Some (k, r)"
  then obtain t' where t: "t = CHR ''$'' # t'" and "match_braced t' = Some (k, r)"
    by (cases t) (auto simp: match_dollar_def split: if_splits)
  with match_braced_sound[of t' k r] show "word_key k \<and> t = dollar_braced k @ r"
    by (simp add: dollar_braced_def braced_def)
next
  assume "word_key k \<and> t = dollar_braced k @ r"
  then show "match_dollar t = Some (k, r)" by (simp add: match_dollar_token)
qed

text \<open>A pass copies the text in front of the leftmost token.\<close>

lemma replace_all_free:
  "token_free m pre rest \<Longrightarrow> replace_all m f (pre @ rest) = pre @ replace_all m f rest"
  by (induction pre) simp_all

lemma replace_all_free_id: "token_free m s [] \<Longrightarrow> replace_all m f s = s"
  using replace_all_free[of m s "[]" f] by simp

lemma leftmost_token:
  "token_free m s [] \<or> (\<exists>pre t. s = pre @ t \<and> token_free m pre t \<and> m t \<noteq> None)"
proof (induction s)
  case Nil
  then show ?case by simp
next
  case (Cons c cs)
  show ?case
  proof (cases "m (c # cs)")
    case (Some a)
    then have "c # cs = [] @ (c # cs) \<and> token_free m [] (c # cs) \<and> m (c # cs) \<noteq> None"
      by simp
    then show ?thesis by blast
  next
    case None
    from Cons.IH show ?thesis
    proof
      assume "token_free m cs []"
      with None show ?thesis by simp
    next
      assume "\<exists>pre t. cs = pre @ t \<and> token_free m pre t \<and> m t \<noteq> None"
      then obtain pre t where "cs = pre @ t" "token_free m pre t" "m t \<noteq> None" by blast
      with None have "c # cs = (c # pre) @ t \<and> token_free m (c # pre) t \<and> m t \<noteq> None"
        by simp
      then show ?thesis by blast
    qed
  qed
qed

lemma leftmost_braced:
  "token_free match_braced s [] \<or>
   (\<exists>pre k rest. s = pre @ braced k @ rest \<and> word_key k \<and>
      token_free match_braced pre (braced k @ rest))"
proof (cases "token_free match_braced s []")
  case True
  then show ?thesis ..
next
  case False
  with leftmost_token[of match_braced s] obtain pre t
    where s: "s = pre @ t" and f: "token_free match_braced pre t" and m: "match_braced t \<noteq> None"
    by blast
  from m obtain k rest where "match_braced t = Some (k, rest)" by (cases "match_braced t") auto
  then have "word_key k" and "t = braced k @ rest" by (simp_all add: match_braced_iff)
  with s f have "s = pre @ braced k @ rest \<and> word_key k \<and>
      token_free match_braced pre (braced k @ rest)" by simp
  then show ?thesis by blast
qed

lemma leftmost_dollar:
  "token_free match_dollar s [] \<or>
   (\<exists>pre k rest. s = pre @ dollar_braced k @ rest \<and> word_key k \<and>
      token_free match_dollar pre (dollar_braced k @ rest))"
proof (cases "token_free match_dollar s []")
  case True
  then show ?thesis ..
next
  case False
  with leftmost_token[of match_dollar s] obtain pre t
    where s: "s = pre @ t" and f: "token_free match_dollar pre t" and m: "match_dollar t \<noteq> None"
    by blast
  from m obtain k rest where "match_dollar t = Some (k, rest)" by (cases "match_dollar t") auto
  then have "word_key k" and "t = dollar_braced k @ rest" by (simp_all add: match_dollar_iff)
  with s f have "s = pre @ dollar_braced k @ rest \<and> word_key k \<and>
      token_free match_dollar pre (dollar_braced k @ rest)" by simp
  then show ?thesis by blast
qed

lemma dollar_pass_token:
  assumes "word_key k" and "token_free match_dollar pre (dollar_braced k @ rest)"
  shows "dollar_pass params (pre @ dollar_braced k @ rest) =
           pre @ value_or_match params k (dollar_braced k) @ dollar_pass params rest"
  unfolding dollar_pass_def replace_all_free[OF assms(2)] replace_all_dollar_token[OF assms(1)] ..

lemma brace_pass_token:
  assumes "word_key k" and "token_free match_braced pre (braced k @ rest)"
  shows "brace_pass params (pre @ braced k @ rest) =
           pre @ value_or_match params k (braced k) @ brace_pass params rest"
  unfolding brace_pass_def replace_all_free[OF assms(2)] replace_all_braced_token[OF assms(1)] ..

lemma substituteParams_token:
  assumes "word_key k" and "token_free match_braced pre (braced k @ rest)"
  shows "substituteParams (pre @ braced k @ rest) params =
           pre @ defined_or_match params k (braced k) @ substituteParams rest params"
  unfolding substituteParams_def replace_all_free[OF assms(2)]
    replace_all_braced_token[OF assms(1)] ..

lemma value_or_match_cases:
  "value_or_match params k tok =
     (case params k of
        Some v \<Rightarrow> if v = [] then tok else v
      | None \<Rightarrow> if k \<in> set object_prototype_keys then to_text (Inherited k) else tok)"
  by (simp add: value_or_match_def js_get_def split: option.splits)

lemma defined_or_match_cases:
  "defined_or_match params k tok =
     (case params k of
        Some v \<Rightarrow> v
      | None \<Rightarrow> if k \<in> set object_prototype_keys then to_text (Inherited k) else tok)"
  by (simp add: defined_or_match_def js_get_def split: option.splits)

lemma replaceParams_passes:
  "replaceParams s params = brace_pass params (dollar_pass params s)"
  by (simp add: replaceParams_def dollar_pass_def brace_pass_def)

text \<open>
  C8.  For every string and every parameter object.  \<open>replaceParams\<close> is the pass over
  \<open>${key}\<close> tokens followed by the pass over \<open>{key}\<close> tokens on its result.  A token is
  the dollar sign and the braces, or the braces alone, around a non-empty run of word
  characters.  A string either holds no token of a pass, and the pass returns it
  unchanged, or it splits at its leftmost token; the pass then copies the text in front,
  puts in \<open>params[key]\<close> when that is truthy and the token itself otherwise, and goes on
  behind the token.  \<open>params[key]\<close> is truthy for an own non-empty string, and for a name
  inherited from \<open>Object.prototype\<close>, which is put in as its text; the token stays for a
  key that is absent or whose value is the empty string.  \<open>substituteParams\<close> of the
  \<open>execute_flow\<close> tool is the pass over \<open>{key}\<close> alone, and it puts in every defined
  value, the empty string too.  Both functions are total.
\<close>

theorem parameter_substitution:
  "replaceParams s params = brace_pass params (dollar_pass params s)
   \<and> (\<forall>t k r. match_dollar t = Some (k, r) \<longleftrightarrow> word_key k \<and> t = dollar_braced k @ r)
   \<and> (\<forall>t k r. match_braced t = Some (k, r) \<longleftrightarrow> word_key k \<and> t = braced k @ r)
   \<and> (token_free match_dollar s [] \<or>
        (\<exists>pre k rest. s = pre @ dollar_braced k @ rest \<and> word_key k \<and>
           token_free match_dollar pre (dollar_braced k @ rest)))
   \<and> (token_free match_braced s [] \<or>
        (\<exists>pre k rest. s = pre @ braced k @ rest \<and> word_key k \<and>
           token_free match_braced pre (braced k @ rest)))
   \<and> (token_free match_dollar s [] \<longrightarrow> dollar_pass params s = s)
   \<and> (token_free match_braced s [] \<longrightarrow>
        brace_pass params s = s \<and> substituteParams s params = s)
   \<and> (\<forall>pre k rest. word_key k \<and> token_free match_dollar pre (dollar_braced k @ rest) \<longrightarrow>
        dollar_pass params (pre @ dollar_braced k @ rest) =
          pre @ value_or_match params k (dollar_braced k) @ dollar_pass params rest)
   \<and> (\<forall>pre k rest. word_key k \<and> token_free match_braced pre (braced k @ rest) \<longrightarrow>
        brace_pass params (pre @ braced k @ rest) =
          pre @ value_or_match params k (braced k) @ brace_pass params rest \<and>
        substituteParams (pre @ braced k @ rest) params =
          pre @ defined_or_match params k (braced k) @ substituteParams rest params)
   \<and> (\<forall>k tok. value_or_match params k tok =
        (case params k of
           Some v \<Rightarrow> if v = [] then tok else v
         | None \<Rightarrow> if k \<in> set object_prototype_keys then to_text (Inherited k) else tok))
   \<and> (\<forall>k tok. defined_or_match params k tok =
        (case params k of
           Some v \<Rightarrow> v
         | None \<Rightarrow> if k \<in> set object_prototype_keys then to_text (Inherited k) else tok))"
proof -
  have c1: "replaceParams s params = brace_pass params (dollar_pass params s)"
    by (rule replaceParams_passes)
  have c2: "\<forall>t k r. match_dollar t = Some (k, r) \<longleftrightarrow> word_key k \<and> t = dollar_braced k @ r"
    by (simp add: match_dollar_iff)
  have c3: "\<forall>t k r. match_braced t = Some (k, r) \<longleftrightarrow> word_key k \<and> t = braced k @ r"
    by (simp add: match_braced_iff)
  note c4 = leftmost_dollar[of s]
  note c5 = leftmost_braced[of s]
  have c6: "token_free match_dollar s [] \<longrightarrow> dollar_pass params s = s"
    by (simp add: dollar_pass_def replace_all_free_id)
  have c7: "token_free match_braced s [] \<longrightarrow>
        brace_pass params s = s \<and> substituteParams s params = s"
    by (simp add: brace_pass_def substituteParams_def replace_all_free_id)
  have c8: "\<forall>pre k rest. word_key k \<and> token_free match_dollar pre (dollar_braced k @ rest) \<longrightarrow>
        dollar_pass params (pre @ dollar_braced k @ rest) =
          pre @ value_or_match params k (dollar_braced k) @ dollar_pass params rest"
    by (simp add: dollar_pass_token)
  have c9: "\<forall>pre k rest. word_key k \<and> token_free match_braced pre (braced k @ rest) \<longrightarrow>
        brace_pass params (pre @ braced k @ rest) =
          pre @ value_or_match params k (braced k) @ brace_pass params rest \<and>
        substituteParams (pre @ braced k @ rest) params =
          pre @ defined_or_match params k (braced k) @ substituteParams rest params"
    by (simp add: brace_pass_token substituteParams_token)
  have c10: "\<forall>k tok. value_or_match params k tok =
        (case params k of
           Some v \<Rightarrow> if v = [] then tok else v
         | None \<Rightarrow> if k \<in> set object_prototype_keys then to_text (Inherited k) else tok)"
    using value_or_match_cases by blast
  have c11: "\<forall>k tok. defined_or_match params k tok =
        (case params k of
           Some v \<Rightarrow> v
         | None \<Rightarrow> if k \<in> set object_prototype_keys then to_text (Inherited k) else tok)"
    using defined_or_match_cases by blast
  from c1 c2 c3 c4 c5 c6 c7 c8 c9 c10 c11 show ?thesis
    by (intro conjI) assumption+
qed


theorem parameter_substitution_counterexample:
  "(Map.empty :: string \<rightharpoonup> string) ''constructor'' = None
   \<and> replaceParams ''{constructor}'' Map.empty = ''function Object() { [native code] }''
   \<and> [''email'' \<mapsto> []] ''email'' = Some []
   \<and> replaceParams ''Hi {email}!'' [''email'' \<mapsto> []] = ''Hi {email}!''
   \<and> replaceParams ''Hi {email}!'' [''email'' \<mapsto> []] \<noteq> ''Hi !''
   \<and> substituteParams ''Hi ${email}!'' [''email'' \<mapsto> ''qa@app.test''] = ''Hi $qa@app.test!''"
  by (simp add: replaceParams_def dollar_pass_def brace_pass_def substituteParams_def
        value_or_match_def defined_or_match_def js_get_def object_prototype_keys_def
        match_dollar_def match_braced_def is_word_char_def braced_def dollar_braced_def)

theorem parameter_substitution_witness:
  "word_key ''email''
   \<and> token_free match_dollar ''pay $5 to {email}!'' []
   \<and> token_free match_braced ''pay $5 to '' (braced ''email'' @ ''!'')
   \<and> token_free match_braced ''!'' []
   \<and> replaceParams ''pay $5 to {email}!'' [''email'' \<mapsto> ''qa@app.test'']
       = ''pay $5 to qa@app.test!''"
proof -
  let ?p = "[''email'' \<mapsto> ''qa@app.test'']"
  have k: "word_key ''email''" by (simp add: word_key_def is_word_char_def)
  have fd: "token_free match_dollar ''pay $5 to {email}!'' []"
    by (simp add: match_dollar_def match_braced_def)
  have fb: "token_free match_braced ''pay $5 to '' (braced ''email'' @ ''!'')"
    by (simp add: match_braced_def)
  have fe: "token_free match_braced ''!'' []"
    by (simp add: match_braced_def)
  have s: "''pay $5 to {email}!'' = ''pay $5 to '' @ braced ''email'' @ ''!''"
    by (simp add: braced_def)
  note whole = parameter_substitution[of "''pay $5 to {email}!''" ?p]
  note rest = parameter_substitution[of "''!''" ?p]
  from whole fd have d: "dollar_pass ?p ''pay $5 to {email}!'' = ''pay $5 to {email}!''"
    by blast
  from whole k fb have b1: "brace_pass ?p (''pay $5 to '' @ braced ''email'' @ ''!'') =
      ''pay $5 to '' @ value_or_match ?p ''email'' (braced ''email'') @ brace_pass ?p ''!''"
    by blast
  from rest fe have b2: "brace_pass ?p ''!'' = ''!''" by blast
  from whole have b3: "value_or_match ?p ''email'' (braced ''email'') = ''qa@app.test''"
    by simp
  from whole have r: "replaceParams ''pay $5 to {email}!'' ?p
       = brace_pass ?p (dollar_pass ?p ''pay $5 to {email}!'')"
    by blast
  from b1 b2 b3 have b: "brace_pass ?p ''pay $5 to {email}!'' = ''pay $5 to qa@app.test!''"
    by (simp add: braced_def)
  have "replaceParams ''pay $5 to {email}!'' ?p = ''pay $5 to qa@app.test!''"
    by (simp only: r d b)
  with k fd fb fe show ?thesis by blast
qed

section \<open>The two learned lookups\<close>








end
